theory Spec2Isabelle
  imports Complex_Main
begin

section \<open>Python values used by the cab booking server\<close>

text \<open>
  A Python \<open>str\<close> is a sequence of Unicode code points; it is modelled as the list of
  these code points. \<open>py\<close> turns an ASCII literal into such a list. The tool schemas
  of \<open>list_tools\<close> declare every argument of every tool as a string, and the model of
  \<open>call_tool\<close> takes a dictionary from strings to strings. Arguments of any other shape
  are modelled apart, by \<open>call_tool_any\<close>.
\<close>

type_synonym pystr = "nat list"

definition py :: "string \<Rightarrow> pystr" where
  "py s = map of_char s"

definition nl :: pystr where
  "nl = [10]"

definition spaces :: "nat \<Rightarrow> pystr" where
  "spaces n = replicate n 32"

text \<open>\<open>str(n)\<close> for a Python int: decimal digits, with a minus sign below zero.\<close>

fun dec :: "nat \<Rightarrow> pystr" where
  "dec n = (if n < 10 then [48 + n] else dec (n div 10) @ [48 + n mod 10])"

declare dec.simps [simp del]

definition str_int :: "int \<Rightarrow> pystr" where
  "str_int i = (if i < 0 then 45 # dec (nat (- i)) else dec (nat i))"

text \<open>
  \<open>str.upper()\<close>, on the ASCII letters. The program applies it to the stored status,
  which is always the ASCII word \<open>confirmed\<close>.
\<close>

definition upper :: "pystr \<Rightarrow> pystr" where
  "upper s = map (\<lambda>c. if 97 \<le> c \<and> c \<le> 122 then c - 32 else c) s"

text \<open>
  A Python float is modelled by the rational number it denotes. \<open>float_repr\<close> is
  \<open>repr\<close> (and \<open>str\<close>) of a float with an integral value of magnitude below \<open>10^16\<close>,
  where CPython prints the integer followed by \<open>.0\<close>; the only float of the program
  is the literal \<open>50.00\<close>.
\<close>

type_synonym pyfloat = rat

definition float_repr :: "pyfloat \<Rightarrow> pystr" where
  "float_repr x = str_int \<lfloor>x\<rfloor> @ py ''.0''"

datatype py_error = KeyError pystr | ValueError pystr | TypeError

text \<open>\<open>arguments[k]\<close>: a missing key raises \<open>KeyError\<close>.\<close>

definition getitem :: "(pystr \<rightharpoonup> pystr) \<Rightarrow> pystr \<Rightarrow> py_error + pystr" where
  "getitem arguments k = (case arguments k of None \<Rightarrow> Inl (KeyError k) | Some v \<Rightarrow> Inr v)"

text \<open>
  A Python \<open>dict\<close> keeps its keys in insertion order, and \<open>json.dumps\<close> writes them in
  that order, so \<open>bookings_db\<close> is an association list with one entry per key.
  \<open>d[k] = v\<close> replaces the value of a key that is present, at its place, and appends
  a new key at the end.
\<close>

fun dict_set :: "('k \<times> 'v) list \<Rightarrow> 'k \<Rightarrow> 'v \<Rightarrow> ('k \<times> 'v) list" where
  "dict_set [] k v = [(k, v)]"
| "dict_set ((k', v') # d) k v = (if k' = k then (k, v) # d else (k', v') # dict_set d k v)"

definition dict_get :: "('k \<times> 'v) list \<Rightarrow> 'k \<Rightarrow> 'v option" where
  "dict_get d k = map_of d k"

definition dict_keys :: "('k \<times> 'v) list \<Rightarrow> 'k list" where
  "dict_keys d = map fst d"

section \<open>The booking store\<close>

text \<open>The dictionary stored under a booking id, with the keys of the source.\<close>

record booking =
  booking_id :: pystr
  pickup_location :: pystr
  dropoff_location :: pystr
  pickup_datetime :: pystr
  cab_type :: pystr
  status :: pystr
  fare :: pyfloat

text \<open>The two module globals: \<open>bookings_db = {}\<close> and \<open>booking_counter = 1000\<close>.\<close>

record state =
  bookings_db :: "(pystr \<times> booking) list"
  booking_counter :: int

definition init_state :: state where
  "init_state = \<lparr>bookings_db = [], booking_counter = 1000\<rparr>"

datatype text_content = TextContent (content_type: pystr) (content_text: pystr)

section \<open>Tools\<close>

text \<open>
  A tool of \<open>list_tools\<close>, with the \<open>required\<close> list of its input schema. For
  \<open>book_cab\<close> the schema is that of \<open>BookCabInput\<close>, whose four fields have no default
  and are therefore all required.
\<close>

record tool =
  tool_name :: pystr
  description :: pystr
  required :: "pystr list"

definition BookCabInput_required :: "pystr list" where
  "BookCabInput_required =
     [py ''pickup_location'', py ''dropoff_location'', py ''pickup_datetime'', py ''cab_type'']"

definition list_tools :: "tool list" where
  "list_tools =
     [\<lparr>tool_name = py ''book_cab'',
       description = py ''Books a cab with specified details. Returns booking confirmation.'',
       required = BookCabInput_required\<rparr>,
      \<lparr>tool_name = py ''check_booking_status'',
       description = py ''Checks the status of a booking by booking ID'',
       required = [py ''booking_id'']\<rparr>,
      \<lparr>tool_name = py ''list_available_cabs'',
       description = py ''Lists all available cabs in a specific area'',
       required = [py ''location'']\<rparr>]"

text \<open>The id that the next booking gets: \<open>f"CAB{booking_counter}"\<close>.\<close>

definition mk_id :: "int \<Rightarrow> pystr" where
  "mk_id n = py ''CAB'' @ str_int n"

definition confirmation_text :: "pystr \<Rightarrow> pystr \<Rightarrow> pystr \<Rightarrow> pystr \<Rightarrow> pystr \<Rightarrow> pystr" where
  "confirmation_text bid pickup dropoff datetime ctype =
     py ''Cab Booking Confirmed!'' @ nl @
     nl @
     spaces 24 @ py ''Booking ID: '' @ bid @ nl @
     spaces 24 @ py ''Pickup: '' @ pickup @ nl @
     spaces 24 @ py ''Drop-off: '' @ dropoff @ nl @
     spaces 24 @ py ''Time: '' @ datetime @ nl @
     spaces 24 @ py ''Cab Type: '' @ ctype @ nl @
     spaces 24 @ py ''Status: CONFIRMED'' @ nl @
     spaces 24 @ py ''Estimated Fare: $50.00'' @ nl @
     nl @
     spaces 24 @ py ''Your driver details will be sent 30 minutes before pickup.'' @ nl @
     spaces 24"

definition status_text :: "booking \<Rightarrow> pystr" where
  "status_text b =
     py '' Booking Status'' @ nl @
     nl @
     spaces 27 @ py ''Booking ID: '' @ booking_id b @ nl @
     spaces 27 @ py ''Status: '' @ upper (status b) @ nl @
     spaces 27 @ py ''Pickup: '' @ pickup_location b @ nl @
     spaces 27 @ py ''Drop-off: '' @ dropoff_location b @ nl @
     spaces 27 @ py ''Time: '' @ pickup_datetime b @ nl @
     spaces 27 @ py ''Cab Type: '' @ cab_type b @ nl @
     spaces 27 @ py ''Fare: $'' @ float_repr (fare b) @ nl @
     spaces 24"

definition not_found_text :: "pystr \<Rightarrow> pystr" where
  "not_found_text bid = py ''Booking '' @ bid @ py '' not found. Please check the booking ID.''"

text \<open>The branch \<open>name == "book_cab"\<close> of \<open>call_tool\<close>.\<close>

definition book_cab :: "(pystr \<rightharpoonup> pystr) \<Rightarrow> state \<Rightarrow> (py_error + text_content list) \<times> state" where
  "book_cab arguments s =
     (case getitem arguments (py ''pickup_location'') of Inl e \<Rightarrow> (Inl e, s) | Inr pickup \<Rightarrow>
      case getitem arguments (py ''dropoff_location'') of Inl e \<Rightarrow> (Inl e, s) | Inr dropoff \<Rightarrow>
      case getitem arguments (py ''pickup_datetime'') of Inl e \<Rightarrow> (Inl e, s) | Inr datetime \<Rightarrow>
      case getitem arguments (py ''cab_type'') of Inl e \<Rightarrow> (Inl e, s) | Inr ctype \<Rightarrow>
        let bid = mk_id (booking_counter s);
            s1 = s\<lparr>booking_counter := booking_counter s + 1\<rparr>;
            s2 = s1\<lparr>bookings_db := dict_set (bookings_db s1) bid
                   \<lparr>booking_id = bid,
                    pickup_location = pickup,
                    dropoff_location = dropoff,
                    pickup_datetime = datetime,
                    cab_type = ctype,
                    status = py ''confirmed'',
                    fare = 50\<rparr>\<rparr>
        in (Inr [TextContent (py ''text'') (confirmation_text bid pickup dropoff datetime ctype)], s2))"

text \<open>
  The branch \<open>name == "check_booking_status"\<close>, for a \<open>booking_id\<close> that is a string.
  The membership test raises on a list or a dictionary; \<open>check_booking_status_any\<close> has
  that case.
\<close>

definition check_booking_status ::
  "(pystr \<rightharpoonup> pystr) \<Rightarrow> state \<Rightarrow> (py_error + text_content list) \<times> state" where
  "check_booking_status arguments s =
     (case getitem arguments (py ''booking_id'') of Inl e \<Rightarrow> (Inl e, s) | Inr bid \<Rightarrow>
        (case dict_get (bookings_db s) bid of
           Some b \<Rightarrow> (Inr [TextContent (py ''text'') (status_text b)], s)
         | None \<Rightarrow> (Inr [TextContent (py ''text'') (not_found_text bid)], s)))"

text \<open>The branch \<open>name == "list_available_cabs"\<close>, with its loop over the simulated cabs.\<close>

record cab =
  cab_kind :: pystr
  cab_count :: int
  cab_eta :: pystr

definition available_cabs :: "cab list" where
  "available_cabs =
     [\<lparr>cab_kind = py ''Standard'', cab_count = 5, cab_eta = py ''3 mins''\<rparr>,
      \<lparr>cab_kind = py ''Premium'', cab_count = 3, cab_eta = py ''5 mins''\<rparr>,
      \<lparr>cab_kind = py ''Luxury'', cab_count = 1, cab_eta = py ''8 mins''\<rparr>]"

definition cab_line :: "cab \<Rightarrow> pystr" where
  "cab_line c =
     [8226] @ py '' '' @ cab_kind c @ py '': '' @ str_int (cab_count c) @
     py '' available (ETA: '' @ cab_eta c @ py '')'' @ nl"

definition list_available_cabs ::
  "(pystr \<rightharpoonup> pystr) \<Rightarrow> state \<Rightarrow> (py_error + text_content list) \<times> state" where
  "list_available_cabs arguments s =
     (case getitem arguments (py ''location'') of Inl e \<Rightarrow> (Inl e, s) | Inr location \<Rightarrow>
        let response = py '' Available Cabs near '' @ location @ py '':'' @ nl @ nl;
            response = foldl (\<lambda>r c. r @ cab_line c) response available_cabs
        in (Inr [TextContent (py ''text'') response], s))"

text \<open>
  \<open>call_tool(name, arguments)\<close>: the result is the returned content or the exception
  that leaves the handler, together with the module globals after the call.
\<close>

definition call_tool ::
  "pystr \<Rightarrow> (pystr \<rightharpoonup> pystr) \<Rightarrow> state \<Rightarrow> (py_error + text_content list) \<times> state" where
  "call_tool name arguments s =
     (if name = py ''book_cab'' then book_cab arguments s
      else if name = py ''check_booking_status'' then check_booking_status arguments s
      else if name = py ''list_available_cabs'' then list_available_cabs arguments s
      else (Inr [TextContent (py ''text'') (py ''Unknown tool: '' @ name)], s))"

section \<open>Resources and prompts\<close>

text \<open>
  The values that \<open>json.dumps\<close> takes and \<open>json.loads\<close> returns: \<open>None\<close>, booleans,
  ints, floats, strings, lists, and dictionaries with string keys.
\<close>

datatype pyval =
    PNone
  | PBool bool
  | PInt int
  | PFloat pyfloat
  | PStr pystr
  | PList "pyval list"
  | PDict "(pystr \<times> pyval) list"

text \<open>
  The string encoder of \<open>json.dumps\<close> (with the default \<open>ensure_ascii=True\<close>): the quote,
  the backslash and five control characters have a two-character escape, the other
  characters from the space to the tilde stand for themselves, and every other code
  point is written as \<open>\uXXXX\<close>, beyond the basic plane as a surrogate pair.
\<close>

definition hexdigit :: "nat \<Rightarrow> nat" where
  "hexdigit d = (if d < 10 then 48 + d else 87 + d)"

definition hex4 :: "nat \<Rightarrow> pystr" where
  "hex4 n = [hexdigit (n div 4096 mod 16), hexdigit (n div 256 mod 16),
             hexdigit (n div 16 mod 16), hexdigit (n mod 16)]"

definition escape_char :: "nat \<Rightarrow> pystr" where
  "escape_char c =
     (if c = 34 then [92, 34]
      else if c = 92 then [92, 92]
      else if c = 10 then [92, 110]
      else if c = 13 then [92, 114]
      else if c = 9 then [92, 116]
      else if c = 8 then [92, 98]
      else if c = 12 then [92, 102]
      else if 32 \<le> c \<and> c \<le> 126 then [c]
      else if c < 65536 then [92, 117] @ hex4 c
      else let n = c - 65536;
               s1 = 55296 + n div 1024 mod 1024;
               s2 = 56320 + n mod 1024
           in [92, 117] @ hex4 s1 @ [92, 117] @ hex4 s2)"

definition encode_basestring_ascii :: "pystr \<Rightarrow> pystr" where
  "encode_basestring_ascii s = [34] @ concat (map escape_char s) @ [34]"

text \<open>
  \<open>json.dumps(v, indent=2)\<close>: an empty container is \<open>{}\<close> or \<open>[]\<close>; the items of any
  other one are written one per line, two spaces deeper than the container, separated
  by a comma, a key from its value by a colon and a space.
\<close>

definition newline_indent :: "nat \<Rightarrow> pystr" where
  "newline_indent level = nl @ spaces (2 * level)"

fun join :: "pystr \<Rightarrow> pystr list \<Rightarrow> pystr" where
  "join sep [] = []"
| "join sep [x] = x"
| "join sep (x # y # xs) = x @ sep @ join sep (y # xs)"

fun iterencode :: "nat \<Rightarrow> pyval \<Rightarrow> pystr" where
  "iterencode level PNone = py ''null''"
| "iterencode level (PBool b) = (if b then py ''true'' else py ''false'')"
| "iterencode level (PInt i) = str_int i"
| "iterencode level (PFloat x) = float_repr x"
| "iterencode level (PStr s) = encode_basestring_ascii s"
| "iterencode level (PList vs) =
     (if vs = [] then py ''[]''
      else py ''['' @ newline_indent (level + 1) @
           join (py '','' @ newline_indent (level + 1)) (map (iterencode (level + 1)) vs) @
           newline_indent level @ py '']'')"
| "iterencode level (PDict kvs) =
     (if kvs = [] then py ''{}''
      else py ''{'' @ newline_indent (level + 1) @
           join (py '','' @ newline_indent (level + 1))
             (map (\<lambda>kv. encode_basestring_ascii (fst kv) @ py '': '' @
                         iterencode (level + 1) (snd kv)) kvs) @
           newline_indent level @ py ''}'')"

definition json_dumps :: "pyval \<Rightarrow> pystr" where
  "json_dumps v = iterencode 0 v"

text \<open>The stored dictionaries as Python values, with the keys in the order of the source.\<close>

definition booking_value :: "booking \<Rightarrow> pyval" where
  "booking_value b =
     PDict [(py ''booking_id'', PStr (booking_id b)),
            (py ''pickup_location'', PStr (pickup_location b)),
            (py ''dropoff_location'', PStr (dropoff_location b)),
            (py ''pickup_datetime'', PStr (pickup_datetime b)),
            (py ''cab_type'', PStr (cab_type b)),
            (py ''status'', PStr (status b)),
            (py ''fare'', PFloat (fare b))]"

definition db_value :: "(pystr \<times> booking) list \<Rightarrow> pyval" where
  "db_value d = PDict (map (\<lambda>kb. (fst kb, booking_value (snd kb))) d)"

definition read_resource :: "pystr \<Rightarrow> state \<Rightarrow> py_error + pystr" where
  "read_resource uri s =
     (if uri = py ''booking://all'' then Inr (json_dumps (db_value (bookings_db s)))
      else Inl (ValueError (py ''Unknown resource: '' @ uri)))"

record prompt_message =
  role :: pystr
  content :: text_content

definition assistant_text :: pystr where
  "assistant_text =
     py ''You are a professional cab booking assistant.'' @ nl @
     nl @
     py ''Guidelines:'' @ nl @
     py ''- Be friendly and efficient'' @ nl @
     py ''- Always confirm booking details before finalizing'' @ nl @
     py ''- Provide clear estimated fares'' @ nl @
     py ''- Offer alternative cab types if needed'' @ nl @
     py ''- Handle cancellations professionally'' @ nl @
     nl @
     py ''Available cab types:'' @ nl @
     py ''- Standard: Budget-friendly option'' @ nl @
     py ''- Premium: Comfortable mid-range'' @ nl @
     py ''- Luxury: High-end experience'' @ nl"

text \<open>\<open>get_prompt(name, arguments)\<close>; the result is the list under the key \<open>messages\<close>.\<close>

definition get_prompt :: "pystr \<Rightarrow> (pystr \<rightharpoonup> pystr) option \<Rightarrow> py_error + prompt_message list" where
  "get_prompt name arguments =
     (if name = py ''booking_assistant''
      then Inr [\<lparr>role = py ''system'', content = TextContent (py ''text'') assistant_text\<rparr>]
      else Inl (ValueError (py ''Unknown prompt: '' @ name)))"

section \<open>Runs of the server\<close>

text \<open>
  The handlers run one at a time on the module globals. A run is the list of the tool
  calls made so far, from the state in which the module was loaded.
\<close>

type_synonym call = "pystr \<times> (pystr \<rightharpoonup> pystr)"

fun run :: "call list \<Rightarrow> state \<Rightarrow> state" where
  "run [] s = s"
| "run (c # cs) s = run cs (snd (call_tool (fst c) (snd c) s))"

text \<open>A call creates a booking when it is a \<open>book_cab\<close> that returns.\<close>

definition creates :: "call \<Rightarrow> state \<Rightarrow> bool" where
  "creates c s = (fst c = py ''book_cab'' \<and> \<not> isl (fst (call_tool (fst c) (snd c) s)))"

fun created :: "call list \<Rightarrow> state \<Rightarrow> nat" where
  "created [] s = 0"
| "created (c # cs) s =
     (if creates c s then 1 else 0) + created cs (snd (call_tool (fst c) (snd c) s))"

fun issued_ids :: "call list \<Rightarrow> state \<Rightarrow> pystr list" where
  "issued_ids [] s = []"
| "issued_ids (c # cs) s =
     (if creates c s then [mk_id (booking_counter s)] else []) @
     issued_ids cs (snd (call_tool (fst c) (snd c) s))"

text \<open>The arguments that a call supplies under the given keys.\<close>

definition has_keys :: "(pystr \<rightharpoonup> pystr) \<Rightarrow> pystr list \<Rightarrow> bool" where
  "has_keys arguments ks = (\<forall>k \<in> set ks. arguments k \<noteq> None)"

text \<open>The dictionary that \<open>book_cab\<close> stores for the counter value \<open>n\<close>.\<close>

definition new_booking :: "(pystr \<rightharpoonup> pystr) \<Rightarrow> int \<Rightarrow> booking" where
  "new_booking arguments n =
     \<lparr>booking_id = mk_id n,
      pickup_location = the (arguments (py ''pickup_location'')),
      dropoff_location = the (arguments (py ''dropoff_location'')),
      pickup_datetime = the (arguments (py ''pickup_datetime'')),
      cab_type = the (arguments (py ''cab_type'')),
      status = py ''confirmed'',
      fare = 50\<rparr>"

text \<open>The counter written in an id: the decimal number after the three letters.\<close>

definition undec :: "pystr \<Rightarrow> nat" where
  "undec s = foldl (\<lambda>a c. 10 * a + (c - 48)) 0 s"

definition id_number :: "pystr \<Rightarrow> int" where
  "id_number bid = int (undec (drop 3 bid))"

text \<open>What holds of the globals in every state that a run reaches.\<close>

definition store_inv :: "state \<Rightarrow> bool" where
  "store_inv s \<longleftrightarrow>
     1000 \<le> booking_counter s \<and>
     dict_keys (bookings_db s) = map mk_id [1000..booking_counter s - 1] \<and>
     (\<forall>kb \<in> set (bookings_db s).
        booking_id (snd kb) = fst kb \<and> status (snd kb) = py ''confirmed'' \<and> fare (snd kb) = 50)"

section \<open>Arguments of any shape\<close>

text \<open>
  \<open>call_tool\<close> declares \<open>arguments: Any\<close>. This section models the handler on
  arguments that are any JSON value: \<open>None\<close>, a boolean, a number, a string, a list, or
  a dictionary whose values are such values again. It keeps which exception leaves the
  handler, or that the handler returns its content, and the module globals after the
  call; the text of the content is that of \<open>call_tool\<close> above and is left out.
\<close>

datatype outcome = Raises py_error | Returns























section \<open>The JSON decoder\<close>

text \<open>
  \<open>json.loads\<close> of the standard library with its default settings, on a \<open>str\<close>. The
  decoder skips the whitespace characters space, tab, line feed and carriage return
  between tokens.
\<close>

definition is_ws :: "nat \<Rightarrow> bool" where
  "is_ws c = (c = 32 \<or> c = 9 \<or> c = 10 \<or> c = 13)"

definition skip_ws :: "pystr \<Rightarrow> pystr" where
  "skip_ws s = dropWhile is_ws s"

definition is_digit :: "nat \<Rightarrow> bool" where
  "is_digit c = (48 \<le> c \<and> c \<le> 57)"

text \<open>
  The four hexadecimal digits of a \<open>\uXXXX\<close> escape, in either case.
\<close>

definition hexval :: "nat \<Rightarrow> nat option" where
  "hexval c =
     (if 48 \<le> c \<and> c \<le> 57 then Some (c - 48)
      else if 97 \<le> c \<and> c \<le> 102 then Some (c - 87)
      else if 65 \<le> c \<and> c \<le> 70 then Some (c - 55)
      else None)"

definition decode_uXXXX :: "pystr \<Rightarrow> nat option" where
  "decode_uXXXX s =
     (case map hexval (take 4 s) of
        [Some a, Some b, Some c, Some d] \<Rightarrow> Some (((a * 16 + b) * 16 + c) * 16 + d)
      | _ \<Rightarrow> None)"

text \<open>The one-character escapes: the quote, the backslash, the slash and \<open>b f n r t\<close>.\<close>

definition unescape :: "nat \<Rightarrow> nat option" where
  "unescape e =
     (if e = 34 then Some 34
      else if e = 92 then Some 92
      else if e = 47 then Some 47
      else if e = 98 then Some 8
      else if e = 102 then Some 12
      else if e = 110 then Some 10
      else if e = 114 then Some 13
      else if e = 116 then Some 9
      else None)"

text \<open>
  \<open>scanstring\<close>, from behind the opening quote: the content of the string and the text
  behind the closing quote. A \<open>\uXXXX\<close> escape of a high surrogate that is directly
  followed by the escape of a low surrogate is joined with it into one code point. A
  string that is not closed, a raw control character, and an unknown or malformed
  escape raise \<open>JSONDecodeError\<close>, the result \<open>None\<close>.
\<close>

definition cons_char :: "nat \<Rightarrow> (pystr \<times> pystr) option \<Rightarrow> (pystr \<times> pystr) option" where
  "cons_char c r = (case r of None \<Rightarrow> None | Some (x, rest) \<Rightarrow> Some (c # x, rest))"

fun scanstring :: "pystr \<Rightarrow> (pystr \<times> pystr) option" where
  "scanstring [] = None"
| "scanstring (c # s) =
     (if c = 34 then Some ([], s)
      else if c = 92 then
        (case s of
           [] \<Rightarrow> None
         | e # s1 \<Rightarrow>
             if e = 117 then
               (case decode_uXXXX s1 of
                  None \<Rightarrow> None
                | Some uni \<Rightarrow>
                    if 55296 \<le> uni \<and> uni \<le> 56319 \<and> take 2 (drop 4 s1) = [92, 117] then
                      (case decode_uXXXX (drop 6 s1) of
                         None \<Rightarrow> None
                       | Some uni2 \<Rightarrow>
                           if 56320 \<le> uni2 \<and> uni2 \<le> 57343
                           then cons_char (65536 + ((uni - 55296) * 1024 + (uni2 - 56320)))
                                  (scanstring (drop 10 s1))
                           else cons_char uni (scanstring (drop 4 s1)))
                    else cons_char uni (scanstring (drop 4 s1)))
             else
               (case unescape e of
                  None \<Rightarrow> None
                | Some ch \<Rightarrow> cons_char ch (scanstring s1)))
      else if c < 32 then None
      else cons_char c (scanstring s))"

declare scanstring.simps [simp del]

text \<open>
  Numbers: an optional minus sign and the digits of an integer (a single zero, or
  digits that start with a nonzero one), then optionally a fraction, then optionally an
  exponent. With neither fraction nor exponent the text is converted by \<open>int\<close>,
  otherwise by \<open>float\<close>. \<open>float_of_str\<close> is the number that the text denotes; this is
  the float that \<open>float\<close> returns where that number is a double, as for \<open>50.0\<close>. The
  constants \<open>NaN\<close>, \<open>Infinity\<close> and \<open>-Infinity\<close>, which denote no number, are not
  decoded.
\<close>

definition scale10 :: "rat \<Rightarrow> int \<Rightarrow> rat" where
  "scale10 x e = (if 0 \<le> e then x * 10 ^ nat e else x / 10 ^ nat (- e))"

definition int_of_str :: "pystr \<Rightarrow> int" where
  "int_of_str t = (if take 1 t = [45] then - int (undec (drop 1 t)) else int (undec t))"

definition float_of_str :: "pystr \<Rightarrow> pystr \<Rightarrow> pystr \<Rightarrow> pyfloat" where
  "float_of_str ip fp ep =
     (let m = of_int (int_of_str ip);
          f = of_nat (undec (drop 1 fp)) / 10 ^ (length fp - 1);
          e = int_of_str (if take 1 (drop 1 ep) = [43] then drop 2 ep else drop 1 ep)
      in scale10 (if take 1 ip = [45] then m - f else m + f) e)"

definition match_integer :: "pystr \<Rightarrow> nat" where
  "match_integer s =
     (let k = (if take 1 s = [45] then 1 else 0);
          ds = takeWhile is_digit (drop k s)
      in if ds = [] then 0 else if take 1 ds = [48] then k + 1 else k + length ds)"

definition match_frac :: "pystr \<Rightarrow> nat" where
  "match_frac s =
     (let ds = takeWhile is_digit (drop 1 s)
      in if take 1 s = [46] \<and> ds \<noteq> [] then 1 + length ds else 0)"

definition match_exp :: "pystr \<Rightarrow> nat" where
  "match_exp s =
     (let k = (if take 1 (drop 1 s) = [45] \<or> take 1 (drop 1 s) = [43] then 2 else 1);
          ds = takeWhile is_digit (drop k s)
      in if (take 1 s = [101] \<or> take 1 s = [69]) \<and> ds \<noteq> [] then k + length ds else 0)"

definition match_number :: "pystr \<Rightarrow> (pyval \<times> pystr) option" where
  "match_number s =
     (let i = match_integer s;
          f = match_frac (drop i s);
          e = match_exp (drop (i + f) s)
      in if i = 0 then None
         else if f = 0 \<and> e = 0 then Some (PInt (int_of_str (take i s)), drop i s)
         else Some (PFloat (float_of_str (take i s) (take f (drop i s)) (take e (drop (i + f) s))),
                    drop (i + f + e) s))"

text \<open>\<open>dict(pairs)\<close>: a later value of a key replaces the earlier one, at its place.\<close>

definition dict_of_pairs :: "('k \<times> 'v) list \<Rightarrow> ('k \<times> 'v) list" where
  "dict_of_pairs pairs = foldl (\<lambda>d kv. dict_set d (fst kv) (snd kv)) [] pairs"

text \<open>
  The punctuation of objects and arrays, with the whitespace around it. The results
  say whether the container ends here, and give the text that follows.
\<close>

definition object_start :: "pystr \<Rightarrow> (bool \<times> pystr) option" where
  "object_start s =
     (case skip_ws s of
        [] \<Rightarrow> None
      | c # r \<Rightarrow> if c = 125 then Some (True, r) else if c = 34 then Some (False, r) else None)"

definition expect_colon :: "pystr \<Rightarrow> pystr option" where
  "expect_colon s =
     (case skip_ws s of
        [] \<Rightarrow> None
      | c # r \<Rightarrow> if c = 58 then Some (skip_ws r) else None)"

definition object_next :: "pystr \<Rightarrow> (bool \<times> pystr) option" where
  "object_next s =
     (case skip_ws s of
        [] \<Rightarrow> None
      | c # r \<Rightarrow>
          if c = 125 then Some (True, r)
          else if c = 44 then
            (case skip_ws r of
               [] \<Rightarrow> None
             | c' # r' \<Rightarrow> if c' = 34 then Some (False, r') else None)
          else None)"

definition array_start :: "pystr \<Rightarrow> (bool \<times> pystr) option" where
  "array_start s =
     (case skip_ws s of
        [] \<Rightarrow> None
      | c # r \<Rightarrow> if c = 93 then Some (True, r) else Some (False, c # r))"

definition array_next :: "pystr \<Rightarrow> (bool \<times> pystr) option" where
  "array_next s =
     (case skip_ws s of
        [] \<Rightarrow> None
      | c # r \<Rightarrow>
          if c = 93 then Some (True, r)
          else if c = 44 then Some (False, skip_ws r)
          else None)"

definition scan_constant :: "pystr \<Rightarrow> (pyval \<times> pystr) option" where
  "scan_constant s =
     (if take 4 s = py ''null'' then Some (PNone, drop 4 s)
      else if take 4 s = py ''true'' then Some (PBool True, drop 4 s)
      else if take 5 s = py ''false'' then Some (PBool False, drop 5 s)
      else match_number s)"

definition parse_string :: "pystr \<Rightarrow> (pyval \<times> pystr) option" where
  "parse_string s = (case scanstring s of None \<Rightarrow> None | Some (x, r) \<Rightarrow> Some (PStr x, r))"

text \<open>
  \<open>scan_once\<close> decodes one value at the start of the text and returns it with the text
  behind it; \<open>JSONObject\<close> and \<open>JSONArray\<close> are the loops over the members of an object,
  from behind the opening quote of a key, and over the items of an array. The decoder
  calls itself for nested values; the first argument bounds the number of these calls
  that are still allowed. \<open>json_loads\<close> allows twice the length of the text and one
  more, and with that many calls or more the result does not depend on the bound.
\<close>

fun scan_once :: "nat \<Rightarrow> pystr \<Rightarrow> (pyval \<times> pystr) option"
  and JSONObject :: "nat \<Rightarrow> (pystr \<times> pyval) list \<Rightarrow> pystr \<Rightarrow> (pyval \<times> pystr) option"
  and JSONArray :: "nat \<Rightarrow> pyval list \<Rightarrow> pystr \<Rightarrow> (pyval \<times> pystr) option"
where
  "scan_once 0 s = None"
| "scan_once (Suc n) [] = None"
| "scan_once (Suc n) (c # r) =
     (if c = 34 then parse_string r
      else if c = 123 then
        (case object_start r of
           None \<Rightarrow> None
         | Some (done, r') \<Rightarrow> if done then Some (PDict [], r') else JSONObject n [] r')
      else if c = 91 then
        (case array_start r of
           None \<Rightarrow> None
         | Some (done, r') \<Rightarrow> if done then Some (PList [], r') else JSONArray n [] r')
      else scan_constant (c # r))"
| "JSONObject 0 pairs s = None"
| "JSONObject (Suc n) pairs s =
     (case scanstring s of
        None \<Rightarrow> None
      | Some (key, s1) \<Rightarrow>
          (case expect_colon s1 of
             None \<Rightarrow> None
           | Some s2 \<Rightarrow>
               (case scan_once n s2 of
                  None \<Rightarrow> None
                | Some (v, s3) \<Rightarrow>
                    (case object_next s3 of
                       None \<Rightarrow> None
                     | Some (done, s4) \<Rightarrow>
                         if done then Some (PDict (dict_of_pairs (pairs @ [(key, v)])), s4)
                         else JSONObject n (pairs @ [(key, v)]) s4))))"
| "JSONArray 0 vs s = None"
| "JSONArray (Suc n) vs s =
     (case scan_once n s of
        None \<Rightarrow> None
      | Some (v, s1) \<Rightarrow>
          (case array_next s1 of
             None \<Rightarrow> None
           | Some (done, s2) \<Rightarrow>
               if done then Some (PList (vs @ [v]), s2)
               else JSONArray n (vs @ [v]) s2))"

declare scan_once.simps [simp del] JSONObject.simps [simp del] JSONArray.simps [simp del]

text \<open>
  \<open>json.loads(s)\<close>: one value, with whitespace before and after it and nothing else.
\<close>

definition json_loads :: "pystr \<Rightarrow> pyval option" where
  "json_loads s =
     (case scan_once (2 * length s + 1) (skip_ws s) of
        None \<Rightarrow> None
      | Some (v, r) \<Rightarrow> if skip_ws r = [] then Some v else None)"

section \<open>Strings that survive the JSON round trip\<close>

text \<open>
  Every element is a code point, and no high surrogate (\<open>U+D800\<close> to \<open>U+DBFF\<close>) is
  directly followed by a low surrogate (\<open>U+DC00\<close> to \<open>U+DFFF\<close>).
\<close>

fun json_safe :: "pystr \<Rightarrow> bool" where
  "json_safe [] = True"
| "json_safe [c] = (c < 1114112)"
| "json_safe (c # c' # s) =
     (c < 1114112 \<and> \<not> (55296 \<le> c \<and> c \<le> 56319 \<and> 56320 \<le> c' \<and> c' \<le> 57343) \<and>
      json_safe (c' # s))"

text \<open>
  The strings of a stored dictionary that come from the arguments of the call, and all
  its strings.
\<close>

definition supplied_strings :: "booking \<Rightarrow> pystr list" where
  "supplied_strings b = [pickup_location b, dropoff_location b, pickup_datetime b, cab_type b]"

definition booking_strings :: "booking \<Rightarrow> pystr list" where
  "booking_strings b =
     [booking_id b, pickup_location b, dropoff_location b, pickup_datetime b, cab_type b, status b]"

text \<open>
  Notions for the proofs. \<open>joins t\<close>: the text starts with a \<open>\u\<close> escape that the
  scanner would join with a high surrogate before it. \<open>escaped_u c\<close>: the encoder
  writes \<open>c\<close> as \<open>\uXXXX\<close> or as a surrogate pair. \<open>delim\<close>: the text is empty or starts
  with a line feed or a comma, as the text behind an encoded value does. \<open>parses v l n\<close>:
  the encoding of \<open>v\<close> at indentation level \<open>l\<close> starts with no whitespace and is decoded
  to \<open>v\<close> whenever at least \<open>n\<close> nested calls are allowed. \<open>mtail\<close>: the text of the
  members of an object from behind the opening quote of the first key.
\<close>

definition joins :: "pystr \<Rightarrow> bool" where
  "joins t \<longleftrightarrow>
     take 2 t = [92, 117] \<and>
     (case decode_uXXXX (drop 2 t) of None \<Rightarrow> True | Some u \<Rightarrow> 56320 \<le> u \<and> u \<le> 57343)"

definition escaped_u :: "nat \<Rightarrow> bool" where
  "escaped_u c \<longleftrightarrow>
     c \<noteq> 34 \<and> c \<noteq> 92 \<and> c \<noteq> 10 \<and> c \<noteq> 13 \<and> c \<noteq> 9 \<and> c \<noteq> 8 \<and> c \<noteq> 12 \<and> \<not> (32 \<le> c \<and> c \<le> 126)"

definition delim :: "pystr \<Rightarrow> bool" where
  "delim rest = (case rest of [] \<Rightarrow> True | c # r \<Rightarrow> c = 10 \<or> c = 44)"

definition parses :: "pyval \<Rightarrow> nat \<Rightarrow> nat \<Rightarrow> bool" where
  "parses v l n \<longleftrightarrow>
     (\<exists>c t. iterencode l v = c # t \<and> \<not> is_ws c) \<and>
     (\<forall>m rest. n \<le> m \<longrightarrow> delim rest \<longrightarrow> scan_once m (iterencode l v @ rest) = Some (v, rest))"

fun mtail :: "nat \<Rightarrow> (pystr \<times> pyval) list \<Rightarrow> pystr \<Rightarrow> pystr" where
  "mtail l [] rest = rest"
| "mtail l [kv] rest =
     tl (encode_basestring_ascii (fst kv)) @ py '': '' @ iterencode (Suc l) (snd kv) @
     newline_indent l @ py ''}'' @ rest"
| "mtail l (kv # kv' # kvs) rest =
     tl (encode_basestring_ascii (fst kv)) @ py '': '' @ iterencode (Suc l) (snd kv) @
     py '','' @ newline_indent (Suc l) @ [34] @ mtail l (kv' # kvs) rest"

section \<open>Example calls\<close>

text \<open>The booking of the scenario, and the same booking with an empty pickup location.\<close>

definition airport_args :: "pystr \<rightharpoonup> pystr" where
  "airport_args =
     [py ''pickup_location'' \<mapsto> py ''Airport'', py ''dropoff_location'' \<mapsto> py ''Downtown'',
      py ''pickup_datetime'' \<mapsto> py ''2024-01-01T10:00:00'', py ''cab_type'' \<mapsto> py ''Premium'']"

definition empty_pickup_args :: "pystr \<rightharpoonup> pystr" where
  "empty_pickup_args =
     [py ''pickup_location'' \<mapsto> [], py ''dropoff_location'' \<mapsto> py ''Downtown'',
      py ''pickup_datetime'' \<mapsto> py ''2024-01-01T10:00:00'', py ''cab_type'' \<mapsto> py ''Premium'']"


text \<open>
  The booking with a pickup location of two code points, a high and a low surrogate,
  and with the one code point \<open>U+10000\<close> that this pair encodes.
\<close>

definition surrogate_args :: "pystr \<rightharpoonup> pystr" where
  "surrogate_args =
     [py ''pickup_location'' \<mapsto> [55296, 56320], py ''dropoff_location'' \<mapsto> py ''Downtown'',
      py ''pickup_datetime'' \<mapsto> py ''2024-01-01T10:00:00'', py ''cab_type'' \<mapsto> py ''Premium'']"

definition astral_args :: "pystr \<rightharpoonup> pystr" where
  "astral_args =
     [py ''pickup_location'' \<mapsto> [65536], py ''dropoff_location'' \<mapsto> py ''Downtown'',
      py ''pickup_datetime'' \<mapsto> py ''2024-01-01T10:00:00'', py ''cab_type'' \<mapsto> py ''Premium'']"

section \<open>Decimal numerals and ids\<close>

lemma undec_dec: "undec (dec n) = n"
proof (induction n rule: dec.induct)
  case (1 n)
  show ?case
  proof (cases "n < 10")
    case True
    then show ?thesis by (simp add: dec.simps [of n] undec_def)
  next
    case False
    with 1 have "undec (dec (n div 10)) = n div 10" by simp
    with False show ?thesis by (simp add: dec.simps [of n] undec_def)
  qed
qed

lemma dec_inj: "dec m = dec n \<Longrightarrow> m = n"
  by (metis undec_dec)

lemma dec_digits: "c \<in> set (dec n) \<Longrightarrow> 48 \<le> c \<and> c \<le> 57"
proof (induction n rule: dec.induct)
  case (1 n)
  show ?case
  proof (cases "n < 10")
    case True
    with 1(2) show ?thesis by (simp add: dec.simps [of n])
  next
    case False
    with 1 show ?thesis by (auto simp add: dec.simps [of n])
  qed
qed

lemma str_int_neg_nonneg: "a < 0 \<Longrightarrow> \<not> b < 0 \<Longrightarrow> str_int a \<noteq> str_int b"
proof
  assume "a < 0" "\<not> b < 0" "str_int a = str_int b"
  then have "45 # dec (nat (- a)) = dec (nat b)" by (simp add: str_int_def)
  then have "45 \<in> set (dec (nat b))" by (metis list.set_intros(1))
  then show False using dec_digits by fastforce
qed

lemma str_int_inj: "str_int i = str_int j \<Longrightarrow> i = j"
proof -
  assume h: "str_int i = str_int j"
  consider "i < 0" "j < 0" | "i < 0" "\<not> j < 0" | "\<not> i < 0" "j < 0" | "\<not> i < 0" "\<not> j < 0"
    by blast
  then show ?thesis
  proof cases
    case 1
    with h have "nat (- i) = nat (- j)" by (auto simp: str_int_def dest: dec_inj)
    with 1 show ?thesis by simp
  next
    case 2
    with h str_int_neg_nonneg show ?thesis by blast
  next
    case 3
    with h str_int_neg_nonneg [of j i] show ?thesis by auto
  next
    case 4
    with h have "nat i = nat j" by (auto simp: str_int_def dest: dec_inj)
    with 4 show ?thesis by simp
  qed
qed

lemma mk_id_inj: "mk_id i = mk_id j \<Longrightarrow> i = j"
  by (simp add: mk_id_def str_int_inj)

lemma id_number_mk_id: "0 \<le> n \<Longrightarrow> id_number (mk_id n) = n"
  by (simp add: id_number_def mk_id_def str_int_def py_def undec_dec)

lemma mk_id_1000: "mk_id 1000 = py ''CAB1000''"
  by (simp add: mk_id_def str_int_def dec.simps py_def)

lemma mk_id_1001: "mk_id 1001 = py ''CAB1001''"
  by (simp add: mk_id_def str_int_def dec.simps py_def)

section \<open>Dictionaries\<close>

lemma dict_set_fresh: "k \<notin> set (dict_keys d) \<Longrightarrow> dict_set d k v = d @ [(k, v)]"
  by (induction d) (auto simp: dict_keys_def)

lemma dict_get_set: "dict_get (dict_set d k v) k = Some v"
  by (induction d) (auto simp: dict_get_def)

lemma dict_get_set_other: "k' \<noteq> k \<Longrightarrow> dict_get (dict_set d k v) k' = dict_get d k'"
  by (induction d) (auto simp: dict_get_def)

lemma dict_get_None: "dict_get d k = None \<longleftrightarrow> k \<notin> set (dict_keys d)"
  by (simp add: dict_get_def dict_keys_def map_of_eq_None_iff)

section \<open>The tool handler\<close>

lemma tool_names_distinct:
  "py ''book_cab'' \<noteq> py ''check_booking_status''"
  "py ''book_cab'' \<noteq> py ''list_available_cabs''"
  "py ''check_booking_status'' \<noteq> py ''list_available_cabs''"
  "py ''check_booking_status'' \<noteq> py ''book_cab''"
  "py ''list_available_cabs'' \<noteq> py ''book_cab''"
  "py ''list_available_cabs'' \<noteq> py ''check_booking_status''"
  by (simp_all add: py_def)

lemma book_cab_ok:
  assumes "has_keys a BookCabInput_required"
  shows "book_cab a s =
    (Inr [TextContent (py ''text'')
           (confirmation_text (mk_id (booking_counter s))
              (the (a (py ''pickup_location''))) (the (a (py ''dropoff_location'')))
              (the (a (py ''pickup_datetime''))) (the (a (py ''cab_type''))))],
     \<lparr>bookings_db = dict_set (bookings_db s) (mk_id (booking_counter s))
                       (new_booking a (booking_counter s)),
      booking_counter = booking_counter s + 1\<rparr>)"
  using assms
  by (auto simp: has_keys_def BookCabInput_required_def book_cab_def getitem_def
      new_booking_def Let_def)

lemma book_cab_fail:
  assumes "\<not> has_keys a BookCabInput_required"
  shows "\<exists>k \<in> set BookCabInput_required. a k = None \<and> book_cab a s = (Inl (KeyError k), s)"
  using assms
  by (auto simp: has_keys_def BookCabInput_required_def book_cab_def getitem_def
      split: option.splits)

lemma check_booking_status_state: "snd (check_booking_status a s) = s"
  by (simp add: check_booking_status_def getitem_def split: option.splits)

lemma list_available_cabs_state: "snd (list_available_cabs a s) = s"
  by (simp add: list_available_cabs_def getitem_def Let_def split: option.splits)

lemma call_tool_other_state: "name \<noteq> py ''book_cab'' \<Longrightarrow> snd (call_tool name a s) = s"
  by (simp add: call_tool_def check_booking_status_state list_available_cabs_state)

lemma creates_iff: "creates c s \<longleftrightarrow> fst c = py ''book_cab'' \<and> has_keys (snd c) BookCabInput_required"
proof (cases "has_keys (snd c) BookCabInput_required")
  case True
  then show ?thesis by (simp add: creates_def call_tool_def book_cab_ok)
next
  case False
  from book_cab_fail [OF this, of s] obtain k where "book_cab (snd c) s = (Inl (KeyError k), s)"
    by blast
  with False show ?thesis by (simp add: creates_def call_tool_def)
qed

lemma step_creates:
  assumes "creates c s"
  shows "snd (call_tool (fst c) (snd c) s) =
     \<lparr>bookings_db = dict_set (bookings_db s) (mk_id (booking_counter s))
                       (new_booking (snd c) (booking_counter s)),
      booking_counter = booking_counter s + 1\<rparr>"
  using assms by (simp add: creates_iff call_tool_def book_cab_ok)

lemma step_no_create:
  assumes "\<not> creates c s"
  shows "snd (call_tool (fst c) (snd c) s) = s"
proof (cases "fst c = py ''book_cab''")
  case True
  with assms have "\<not> has_keys (snd c) BookCabInput_required" by (simp add: creates_iff)
  from book_cab_fail [OF this, of s] True show ?thesis by (auto simp: call_tool_def)
next
  case False
  then show ?thesis by (rule call_tool_other_state)
qed

section \<open>The invariant of the store\<close>

lemma store_inv_init: "store_inv init_state"
  by (simp add: store_inv_def init_state_def dict_keys_def)

lemma store_inv_fresh:
  assumes "store_inv s"
  shows "mk_id (booking_counter s) \<notin> set (dict_keys (bookings_db s))"
proof
  assume "mk_id (booking_counter s) \<in> set (dict_keys (bookings_db s))"
  with assms obtain i where "i \<le> booking_counter s - 1" "mk_id (booking_counter s) = mk_id i"
    by (auto simp: store_inv_def)
  then show False by (auto dest: mk_id_inj)
qed

lemma step_creates_append:
  assumes "store_inv s" "creates c s"
  shows "snd (call_tool (fst c) (snd c) s) =
     \<lparr>bookings_db = bookings_db s @ [(mk_id (booking_counter s), new_booking (snd c) (booking_counter s))],
      booking_counter = booking_counter s + 1\<rparr>"
  using assms by (simp add: step_creates dict_set_fresh store_inv_fresh)

lemma store_inv_step:
  assumes "store_inv s"
  shows "store_inv (snd (call_tool (fst c) (snd c) s))"
proof (cases "creates c s")
  case True
  have "[1000..booking_counter s] = [1000..booking_counter s - 1] @ [booking_counter s]"
    using assms by (simp add: store_inv_def upto_rec2)
  with assms show ?thesis
    by (auto simp: step_creates_append [OF assms True] store_inv_def dict_keys_def new_booking_def)
next
  case False
  with assms show ?thesis by (simp add: step_no_create)
qed

lemma store_inv_run: "store_inv s \<Longrightarrow> store_inv (run cs s)"
  by (induction cs arbitrary: s) (simp_all add: store_inv_step)

lemma counter_run: "booking_counter (run cs s) = booking_counter s + int (created cs s)"
proof (induction cs arbitrary: s)
  case Nil
  show ?case by simp
next
  case (Cons c cs)
  show ?case
  proof (cases "creates c s")
    case True
    then show ?thesis by (simp add: Cons step_creates)
  next
    case False
    then show ?thesis by (simp add: Cons step_no_create)
  qed
qed

lemma length_issued_ids: "length (issued_ids cs s) = created cs s"
  by (induction cs arbitrary: s) simp_all

lemma keys_run:
  "store_inv s \<Longrightarrow> dict_keys (bookings_db (run cs s)) = dict_keys (bookings_db s) @ issued_ids cs s"
proof (induction cs arbitrary: s)
  case Nil
  show ?case by simp
next
  case (Cons c cs)
  have inv': "store_inv (snd (call_tool (fst c) (snd c) s))"
    using Cons.prems by (rule store_inv_step)
  show ?case
  proof (cases "creates c s")
    case True
    with Cons.IH [OF inv'] Cons.prems show ?thesis
      by (simp add: step_creates_append dict_keys_def)
  next
    case False
    with Cons.IH [OF inv'] show ?thesis by (simp add: step_no_create)
  qed
qed

lemma issued_ids_init:
  "issued_ids cs init_state = map mk_id [1000..999 + int (created cs init_state)]"
proof -
  have "store_inv (run cs init_state)" by (simp add: store_inv_run store_inv_init)
  then have "dict_keys (bookings_db (run cs init_state)) =
      map mk_id [1000..booking_counter (run cs init_state) - 1]"
    by (simp add: store_inv_def)
  moreover have "dict_keys (bookings_db (run cs init_state)) = issued_ids cs init_state"
    using keys_run [OF store_inv_init, of cs] by (simp add: init_state_def dict_keys_def)
  moreover have "booking_counter (run cs init_state) - 1 = 999 + int (created cs init_state)"
    by (simp add: counter_run init_state_def)
  ultimately show ?thesis by simp
qed

lemma sorted_wrt_upto_less: "sorted_wrt (<) [i..j]"
  by (simp add: strict_sorted_iff)

lemma map_id_number_mk_id: "0 \<le> i \<Longrightarrow> map id_number (map mk_id [i..j]) = [i..j]"
proof -
  assume "0 \<le> i"
  then have "\<And>x. x \<in> set [i..j] \<Longrightarrow> (id_number \<circ> mk_id) x = x"
    by (simp add: id_number_mk_id)
  then have "map (id_number \<circ> mk_id) [i..j] = [i..j]" by (rule map_idI)
  then show ?thesis by simp
qed

lemma distinct_map_mk_id: "distinct (map mk_id [i..j])"
  by (simp add: distinct_map inj_on_def mk_id_inj)

section \<open>Claims\<close>

text \<open>
  C1. From the freshly loaded module, the first booking that is created returns the id
  \<open>CAB1000\<close> and stores it with the fare 50.00 and the status \<open>confirmed\<close>, and a second
  one returns \<open>CAB1001\<close>. In every run the ids issued are \<open>CAB\<close> followed by the decimal
  counter, which starts at 1000 and goes up by one with every booking created: the ids
  are pairwise different and their counters strictly increasing.
\<close>

theorem ids_issued_from_1000:
  assumes "a1 (py ''pickup_location'') = Some p1" and "a1 (py ''dropoff_location'') = Some d1"
    and "a1 (py ''pickup_datetime'') = Some t1" and "a1 (py ''cab_type'') = Some c1"
    and "a2 (py ''pickup_location'') = Some p2" and "a2 (py ''dropoff_location'') = Some d2"
    and "a2 (py ''pickup_datetime'') = Some t2" and "a2 (py ''cab_type'') = Some c2"
  shows "call_tool (py ''book_cab'') a1 init_state =
           (Inr [TextContent (py ''text'') (confirmation_text (py ''CAB1000'') p1 d1 t1 c1)],
            \<lparr>bookings_db =
               [(py ''CAB1000'',
                 \<lparr>booking_id = py ''CAB1000'', pickup_location = p1, dropoff_location = d1,
                  pickup_datetime = t1, cab_type = c1, status = py ''confirmed'', fare = 50\<rparr>)],
             booking_counter = 1001\<rparr>) \<and>
         fst (call_tool (py ''book_cab'') a2 (snd (call_tool (py ''book_cab'') a1 init_state))) =
           Inr [TextContent (py ''text'') (confirmation_text (py ''CAB1001'') p2 d2 t2 c2)] \<and>
         issued_ids cs init_state =
           map (\<lambda>n. py ''CAB'' @ str_int n) [1000..999 + int (created cs init_state)] \<and>
         distinct (issued_ids cs init_state) \<and>
         map id_number (issued_ids cs init_state) = [1000..999 + int (created cs init_state)] \<and>
         sorted_wrt (<) (map id_number (issued_ids cs init_state))"
proof -
  have k1: "has_keys a1 BookCabInput_required" and k2: "has_keys a2 BookCabInput_required"
    using assms by (simp_all add: has_keys_def BookCabInput_required_def)
  have first: "call_tool (py ''book_cab'') a1 init_state =
           (Inr [TextContent (py ''text'') (confirmation_text (py ''CAB1000'') p1 d1 t1 c1)],
            \<lparr>bookings_db =
               [(py ''CAB1000'',
                 \<lparr>booking_id = py ''CAB1000'', pickup_location = p1, dropoff_location = d1,
                  pickup_datetime = t1, cab_type = c1, status = py ''confirmed'', fare = 50\<rparr>)],
             booking_counter = 1001\<rparr>)"
    using assms(1-4)
    by (simp add: call_tool_def book_cab_ok [OF k1] init_state_def new_booking_def mk_id_1000)
  have second: "fst (call_tool (py ''book_cab'') a2 (snd (call_tool (py ''book_cab'') a1 init_state))) =
           Inr [TextContent (py ''text'') (confirmation_text (py ''CAB1001'') p2 d2 t2 c2)]"
    using assms(5-8) by (simp add: first) (simp add: call_tool_def book_cab_ok [OF k2] mk_id_1001)
  have ids: "issued_ids cs init_state = map mk_id [1000..999 + int (created cs init_state)]"
    by (rule issued_ids_init)
  have form: "issued_ids cs init_state =
           map (\<lambda>n. py ''CAB'' @ str_int n) [1000..999 + int (created cs init_state)]"
    unfolding ids by (simp add: mk_id_def)
  have dist: "distinct (issued_ids cs init_state)"
    unfolding ids by (rule distinct_map_mk_id)
  have nums: "map id_number (issued_ids cs init_state) = [1000..999 + int (created cs init_state)]"
    unfolding ids by (rule map_id_number_mk_id) simp
  have incr: "sorted_wrt (<) (map id_number (issued_ids cs init_state))"
    unfolding nums by (rule sorted_wrt_upto_less)
  from first second form dist nums incr show ?thesis by blast
qed

lemma airport_args_keys:
  "airport_args (py ''pickup_location'') = Some (py ''Airport'')"
  "airport_args (py ''dropoff_location'') = Some (py ''Downtown'')"
  "airport_args (py ''pickup_datetime'') = Some (py ''2024-01-01T10:00:00'')"
  "airport_args (py ''cab_type'') = Some (py ''Premium'')"
  by (simp_all add: airport_args_def py_def)


lemma airport_args_has_keys: "has_keys airport_args BookCabInput_required"
  by (simp add: has_keys_def BookCabInput_required_def airport_args_keys)

theorem ids_issued_from_1000_witness:
  "airport_args (py ''pickup_location'') = Some (py ''Airport'') \<and>
   airport_args (py ''dropoff_location'') = Some (py ''Downtown'') \<and>
   airport_args (py ''pickup_datetime'') = Some (py ''2024-01-01T10:00:00'') \<and>
   airport_args (py ''cab_type'') = Some (py ''Premium'') \<and>
   call_tool (py ''book_cab'') airport_args init_state =
     (Inr [TextContent (py ''text'')
            (confirmation_text (py ''CAB1000'') (py ''Airport'') (py ''Downtown'')
               (py ''2024-01-01T10:00:00'') (py ''Premium''))],
      \<lparr>bookings_db =
         [(py ''CAB1000'',
           \<lparr>booking_id = py ''CAB1000'', pickup_location = py ''Airport'',
            dropoff_location = py ''Downtown'', pickup_datetime = py ''2024-01-01T10:00:00'',
            cab_type = py ''Premium'', status = py ''confirmed'', fare = 50\<rparr>)],
       booking_counter = 1001\<rparr>) \<and>
   fst (call_tool (py ''book_cab'') airport_args (snd (call_tool (py ''book_cab'') airport_args init_state))) =
     Inr [TextContent (py ''text'')
           (confirmation_text (py ''CAB1001'') (py ''Airport'') (py ''Downtown'')
              (py ''2024-01-01T10:00:00'') (py ''Premium''))]"
  using ids_issued_from_1000 [OF airport_args_keys airport_args_keys, of "[]"] airport_args_keys by blast

text \<open>
  C6. After any run, the store holds as many bookings as \<open>book_cab\<close> calls have
  returned, its keys in insertion order are the ids in the order of their creation,
  and the counters of these ids are in non-decreasing order.
\<close>

theorem store_size_and_order:
  "length (bookings_db (run cs init_state)) = created cs init_state \<and>
   dict_keys (bookings_db (run cs init_state)) = issued_ids cs init_state \<and>
   sorted (map id_number (dict_keys (bookings_db (run cs init_state))))"
proof -
  have keys: "dict_keys (bookings_db (run cs init_state)) = issued_ids cs init_state"
    using keys_run [OF store_inv_init, of cs] by (simp add: init_state_def dict_keys_def)
  then have "length (dict_keys (bookings_db (run cs init_state))) = created cs init_state"
    by (simp add: length_issued_ids)
  then have len: "length (bookings_db (run cs init_state)) = created cs init_state"
    by (simp add: dict_keys_def)
  have "map id_number (issued_ids cs init_state) = [1000..999 + int (created cs init_state)]"
    unfolding issued_ids_init by (rule map_id_number_mk_id) simp
  then have "sorted (map id_number (dict_keys (bookings_db (run cs init_state))))"
    by (simp add: keys)
  with len keys show ?thesis by blast
qed

text \<open>
  C4. After any run, \<open>check_booking_status\<close> with an id that the run never issued
  returns the not-found text as ordinary content, and the globals, so the number of
  stored bookings too, are the same after the call as before.
\<close>

theorem unknown_booking_not_found:
  assumes "bid \<notin> set (issued_ids cs init_state)" and "a (py ''booking_id'') = Some bid"
  shows "call_tool (py ''check_booking_status'') a (run cs init_state) =
           (Inr [TextContent (py ''text'')
                  (py ''Booking '' @ bid @ py '' not found. Please check the booking ID.'')],
            run cs init_state)"
proof -
  have "dict_keys (bookings_db (run cs init_state)) = issued_ids cs init_state"
    using keys_run [OF store_inv_init, of cs] by (simp add: init_state_def dict_keys_def)
  with assms(1) have "dict_get (bookings_db (run cs init_state)) bid = None"
    by (simp add: dict_get_None)
  with assms(2) show ?thesis
    by (simp add: call_tool_def tool_names_distinct check_booking_status_def getitem_def
        not_found_text_def)
qed

lemma issued_airport: "issued_ids [(py ''book_cab'', airport_args)] init_state = [py ''CAB1000'']"
  by (simp add: creates_iff airport_args_has_keys init_state_def mk_id_1000)

theorem unknown_booking_not_found_witness:
  "py ''CAB9999'' \<notin> set (issued_ids [(py ''book_cab'', airport_args)] init_state) \<and>
   [py ''booking_id'' \<mapsto> py ''CAB9999''] (py ''booking_id'') = Some (py ''CAB9999'') \<and>
   call_tool (py ''check_booking_status'') [py ''booking_id'' \<mapsto> py ''CAB9999'']
       (run [(py ''book_cab'', airport_args)] init_state) =
     (Inr [TextContent (py ''text'')
            (py ''Booking '' @ py ''CAB9999'' @ py '' not found. Please check the booking ID.'')],
      run [(py ''book_cab'', airport_args)] init_state)"
proof -
  have h1: "py ''CAB9999'' \<notin> set (issued_ids [(py ''book_cab'', airport_args)] init_state)"
    unfolding issued_airport by (simp add: py_def)
  have h2: "[py ''booking_id'' \<mapsto> py ''CAB9999''] (py ''booking_id'') = Some (py ''CAB9999'')"
    by simp
  from unknown_booking_not_found
         [where bid = "py ''CAB9999''" and cs = "[(py ''book_cab'', airport_args)]"
            and a = "[py ''booking_id'' \<mapsto> py ''CAB9999'']", OF h1 h2] h1 h2
  show ?thesis by blast
qed

text \<open>
  C5. In any state, when \<open>book_cab\<close> is given its four arguments it returns the
  confirmation with the new id, and right after the call the store holds under that id
  the dictionary with the supplied pickup, drop-off, time and cab type, the status
  \<open>confirmed\<close> and the fare 50.00; \<open>check_booking_status\<close> with that id returns the
  status text of this dictionary.
\<close>

theorem lookup_after_create:
  assumes "a (py ''pickup_location'') = Some p" and "a (py ''dropoff_location'') = Some d"
    and "a (py ''pickup_datetime'') = Some t" and "a (py ''cab_type'') = Some c"
    and "bid = mk_id (booking_counter s)"
    and "b = \<lparr>booking_id = bid, pickup_location = p, dropoff_location = d,
              pickup_datetime = t, cab_type = c, status = py ''confirmed'', fare = 50\<rparr>"
    and "s' = snd (call_tool (py ''book_cab'') a s)"
  shows "fst (call_tool (py ''book_cab'') a s) =
           Inr [TextContent (py ''text'') (confirmation_text bid p d t c)] \<and>
         dict_get (bookings_db s') bid = Some b \<and>
         call_tool (py ''check_booking_status'') [py ''booking_id'' \<mapsto> bid] s' =
           (Inr [TextContent (py ''text'') (status_text b)], s')"
proof -
  have k: "has_keys a BookCabInput_required"
    using assms(1-4) by (simp add: has_keys_def BookCabInput_required_def)
  have nb: "new_booking a (booking_counter s) = b"
    using assms(1-6) by (simp add: new_booking_def)
  have res: "fst (call_tool (py ''book_cab'') a s) =
           Inr [TextContent (py ''text'') (confirmation_text bid p d t c)]"
    using assms(1-5) by (simp add: call_tool_def book_cab_ok [OF k])
  have s': "bookings_db s' = dict_set (bookings_db s) bid b"
    using assms(5,7) nb by (simp add: call_tool_def book_cab_ok [OF k])
  have get: "dict_get (bookings_db s') bid = Some b"
    by (simp add: s' dict_get_set)
  have chk: "call_tool (py ''check_booking_status'') [py ''booking_id'' \<mapsto> bid] s' =
           (Inr [TextContent (py ''text'') (status_text b)], s')"
    by (simp add: call_tool_def tool_names_distinct check_booking_status_def getitem_def get)
  from res get chk show ?thesis by blast
qed

lemma empty_pickup_args_keys:
  "empty_pickup_args (py ''pickup_location'') = Some []"
  "empty_pickup_args (py ''dropoff_location'') = Some (py ''Downtown'')"
  "empty_pickup_args (py ''pickup_datetime'') = Some (py ''2024-01-01T10:00:00'')"
  "empty_pickup_args (py ''cab_type'') = Some (py ''Premium'')"
  by (simp_all add: empty_pickup_args_def py_def)

lemma empty_pickup_args_has_keys: "has_keys empty_pickup_args BookCabInput_required"
  by (simp add: has_keys_def BookCabInput_required_def empty_pickup_args_keys)

lemma run_airport:
  "run [(py ''book_cab'', airport_args)] init_state =
     \<lparr>bookings_db =
        [(py ''CAB1000'',
          \<lparr>booking_id = py ''CAB1000'', pickup_location = py ''Airport'',
           dropoff_location = py ''Downtown'', pickup_datetime = py ''2024-01-01T10:00:00'',
           cab_type = py ''Premium'', status = py ''confirmed'', fare = 50\<rparr>)],
      booking_counter = 1001\<rparr>"
  by (simp add: call_tool_def book_cab_ok [OF airport_args_has_keys] init_state_def new_booking_def
      mk_id_1000 airport_args_keys)

lemma run_append: "run (cs @ cs') s = run cs' (run cs s)"
  by (induction cs arbitrary: s) simp_all

lemma run_extends: "store_inv s \<Longrightarrow> \<exists>new. bookings_db (run cs s) = bookings_db s @ new"
proof (induction cs arbitrary: s)
  case Nil
  show ?case by simp
next
  case (Cons c cs)
  have inv': "store_inv (snd (call_tool (fst c) (snd c) s))"
    using Cons.prems by (rule store_inv_step)
  from Cons.IH [OF inv'] obtain new where
    new: "bookings_db (run (c # cs) s) = bookings_db (snd (call_tool (fst c) (snd c) s)) @ new"
    by auto
  show ?case
  proof (cases "creates c s")
    case True
    with new Cons.prems show ?thesis by (simp add: step_creates_append)
  next
    case False
    with new show ?thesis by (simp add: step_no_create)
  qed
qed

lemma dict_get_append: "dict_get d k = Some b \<Longrightarrow> dict_get (d @ new) k = Some b"
  by (simp add: dict_get_def)

theorem lookup_after_create_witness:
  "airport_args (py ''pickup_location'') = Some (py ''Airport'') \<and>
   airport_args (py ''dropoff_location'') = Some (py ''Downtown'') \<and>
   airport_args (py ''pickup_datetime'') = Some (py ''2024-01-01T10:00:00'') \<and>
   airport_args (py ''cab_type'') = Some (py ''Premium'') \<and>
   dict_get (bookings_db (snd (call_tool (py ''book_cab'') airport_args init_state)))
       (mk_id (booking_counter init_state)) =
     Some \<lparr>booking_id = mk_id (booking_counter init_state), pickup_location = py ''Airport'',
           dropoff_location = py ''Downtown'', pickup_datetime = py ''2024-01-01T10:00:00'',
           cab_type = py ''Premium'', status = py ''confirmed'', fare = 50\<rparr>"
  using lookup_after_create [OF airport_args_keys refl refl refl, of init_state] airport_args_keys by blast

text \<open>
  C10. In every state that a run reaches, each stored dictionary carries its own key
  as \<open>booking_id\<close>, the status \<open>confirmed\<close> and the fare 50.00; and whatever calls
  follow, the bookings stored so far stay in their places, unchanged, in the store.
\<close>

theorem stored_records_fixed:
  "(\<forall>kb \<in> set (bookings_db (run cs init_state)).
      booking_id (snd kb) = fst kb \<and> status (snd kb) = py ''confirmed'' \<and> fare (snd kb) = 50) \<and>
   take (length (bookings_db (run cs init_state))) (bookings_db (run (cs @ cs') init_state)) =
     bookings_db (run cs init_state) \<and>
   (\<forall>k b. dict_get (bookings_db (run cs init_state)) k = Some b \<longrightarrow>
      dict_get (bookings_db (run (cs @ cs') init_state)) k = Some b)"
proof -
  have inv: "store_inv (run cs init_state)"
    by (simp add: store_inv_run store_inv_init)
  from run_extends [OF inv, of cs'] obtain new where
    new: "bookings_db (run (cs @ cs') init_state) = bookings_db (run cs init_state) @ new"
    by (auto simp: run_append)
  have fields: "\<forall>kb \<in> set (bookings_db (run cs init_state)).
      booking_id (snd kb) = fst kb \<and> status (snd kb) = py ''confirmed'' \<and> fare (snd kb) = 50"
    using inv by (simp add: store_inv_def)
  have pre: "take (length (bookings_db (run cs init_state))) (bookings_db (run (cs @ cs') init_state)) =
     bookings_db (run cs init_state)"
    by (simp add: new)
  have get: "\<forall>k b. dict_get (bookings_db (run cs init_state)) k = Some b \<longrightarrow>
      dict_get (bookings_db (run (cs @ cs') init_state)) k = Some b"
    by (simp add: new dict_get_append)
  from fields pre get show ?thesis by blast
qed

theorem stored_records_fixed_witness:
  "(py ''CAB1000'',
      \<lparr>booking_id = py ''CAB1000'', pickup_location = py ''Airport'',
       dropoff_location = py ''Downtown'', pickup_datetime = py ''2024-01-01T10:00:00'',
       cab_type = py ''Premium'', status = py ''confirmed'', fare = 50\<rparr>)
     \<in> set (bookings_db (run [(py ''book_cab'', airport_args)] init_state)) \<and>
   dict_get (bookings_db (run [(py ''book_cab'', airport_args)] init_state)) (py ''CAB1000'') =
     Some \<lparr>booking_id = py ''CAB1000'', pickup_location = py ''Airport'',
           dropoff_location = py ''Downtown'', pickup_datetime = py ''2024-01-01T10:00:00'',
           cab_type = py ''Premium'', status = py ''confirmed'', fare = 50\<rparr> \<and>
   dict_get (bookings_db (run ([(py ''book_cab'', airport_args)] @ [(py ''book_cab'', empty_pickup_args)]) init_state))
       (py ''CAB1000'') =
     Some \<lparr>booking_id = py ''CAB1000'', pickup_location = py ''Airport'',
           dropoff_location = py ''Downtown'', pickup_datetime = py ''2024-01-01T10:00:00'',
           cab_type = py ''Premium'', status = py ''confirmed'', fare = 50\<rparr>"
proof -
  have mem: "(py ''CAB1000'',
      \<lparr>booking_id = py ''CAB1000'', pickup_location = py ''Airport'',
       dropoff_location = py ''Downtown'', pickup_datetime = py ''2024-01-01T10:00:00'',
       cab_type = py ''Premium'', status = py ''confirmed'', fare = 50\<rparr>)
     \<in> set (bookings_db (run [(py ''book_cab'', airport_args)] init_state))"
    unfolding run_airport by simp
  have get: "dict_get (bookings_db (run [(py ''book_cab'', airport_args)] init_state)) (py ''CAB1000'') =
     Some \<lparr>booking_id = py ''CAB1000'', pickup_location = py ''Airport'',
           dropoff_location = py ''Downtown'', pickup_datetime = py ''2024-01-01T10:00:00'',
           cab_type = py ''Premium'', status = py ''confirmed'', fare = 50\<rparr>"
    unfolding run_airport by (simp add: dict_get_def)
  from stored_records_fixed [of "[(py ''book_cab'', airport_args)]" "[(py ''book_cab'', empty_pickup_args)]"] mem get
  show ?thesis by blast
qed

text \<open>
  \<open>book_cab\<close> does not look at the values of its arguments: called with an empty pickup
  location on the fresh module it returns, and the store has one booking more.
\<close>

theorem empty_pickup_counterexample:
  "\<not> (isl (fst (call_tool (py ''book_cab'') empty_pickup_args init_state)) \<and>
      length (bookings_db (snd (call_tool (py ''book_cab'') empty_pickup_args init_state))) =
        length (bookings_db init_state))"
  by (simp add: call_tool_def book_cab_ok [OF empty_pickup_args_has_keys] init_state_def)

text \<open>
  C2, as the code has it. After any run, \<open>book_cab\<close> with an empty pickup location and
  the three other arguments returns the confirmation, and appends to the store one
  booking, with the empty pickup location: the store has exactly one booking more.
\<close>

theorem empty_pickup_accepted:
  assumes "a (py ''pickup_location'') = Some []" and "a (py ''dropoff_location'') = Some d"
    and "a (py ''pickup_datetime'') = Some t" and "a (py ''cab_type'') = Some c"
  shows "fst (call_tool (py ''book_cab'') a (run cs init_state)) =
           Inr [TextContent (py ''text'')
                 (confirmation_text (mk_id (booking_counter (run cs init_state))) [] d t c)] \<and>
         bookings_db (snd (call_tool (py ''book_cab'') a (run cs init_state))) =
           bookings_db (run cs init_state) @
             [(mk_id (booking_counter (run cs init_state)),
               \<lparr>booking_id = mk_id (booking_counter (run cs init_state)), pickup_location = [],
                dropoff_location = d, pickup_datetime = t, cab_type = c,
                status = py ''confirmed'', fare = 50\<rparr>)] \<and>
         length (bookings_db (snd (call_tool (py ''book_cab'') a (run cs init_state)))) =
           length (bookings_db (run cs init_state)) + 1"
proof -
  have k: "has_keys a BookCabInput_required"
    using assms by (simp add: has_keys_def BookCabInput_required_def)
  have inv: "store_inv (run cs init_state)"
    by (simp add: store_inv_run store_inv_init)
  have cr: "creates (py ''book_cab'', a) (run cs init_state)"
    using k by (simp add: creates_iff)
  have res: "fst (call_tool (py ''book_cab'') a (run cs init_state)) =
           Inr [TextContent (py ''text'')
                 (confirmation_text (mk_id (booking_counter (run cs init_state))) [] d t c)]"
    using assms by (simp add: call_tool_def book_cab_ok [OF k])
  have db: "bookings_db (snd (call_tool (py ''book_cab'') a (run cs init_state))) =
           bookings_db (run cs init_state) @
             [(mk_id (booking_counter (run cs init_state)),
               \<lparr>booking_id = mk_id (booking_counter (run cs init_state)), pickup_location = [],
                dropoff_location = d, pickup_datetime = t, cab_type = c,
                status = py ''confirmed'', fare = 50\<rparr>)]"
    using step_creates_append [OF inv cr] assms by (simp add: new_booking_def)
  have len: "length (bookings_db (snd (call_tool (py ''book_cab'') a (run cs init_state)))) =
           length (bookings_db (run cs init_state)) + 1"
    by (simp add: db)
  from res db len show ?thesis by blast
qed

theorem empty_pickup_accepted_witness:
  "empty_pickup_args (py ''pickup_location'') = Some [] \<and>
   empty_pickup_args (py ''dropoff_location'') = Some (py ''Downtown'') \<and>
   empty_pickup_args (py ''pickup_datetime'') = Some (py ''2024-01-01T10:00:00'') \<and>
   empty_pickup_args (py ''cab_type'') = Some (py ''Premium'') \<and>
   length (bookings_db (snd (call_tool (py ''book_cab'') empty_pickup_args (run [(py ''book_cab'', airport_args)] init_state)))) =
     length (bookings_db (run [(py ''book_cab'', airport_args)] init_state)) + 1"
  using empty_pickup_accepted [OF empty_pickup_args_keys, of "[(py ''book_cab'', airport_args)]"] empty_pickup_args_keys by blast


lemma check_booking_status_result:
  "check_booking_status a s =
     (case a (py ''booking_id'') of
        None \<Rightarrow> (Inl (KeyError (py ''booking_id'')), s)
      | Some bid \<Rightarrow>
          (Inr [TextContent (py ''text'')
                 (case dict_get (bookings_db s) bid of
                    Some b \<Rightarrow> status_text b | None \<Rightarrow> not_found_text bid)], s))"
  by (simp add: check_booking_status_def getitem_def split: option.splits)

lemma list_available_cabs_result:
  "list_available_cabs a s =
     (case a (py ''location'') of
        None \<Rightarrow> (Inl (KeyError (py ''location'')), s)
      | Some location \<Rightarrow>
          (Inr [TextContent (py ''text'')
                 (foldl (\<lambda>r c. r @ cab_line c)
                    (py '' Available Cabs near '' @ location @ py '':'' @ nl @ nl)
                    available_cabs)], s))"
  by (simp add: list_available_cabs_def getitem_def Let_def split: option.splits)

lemma call_tool_unknown:
  "name \<notin> tool_name ` set list_tools \<Longrightarrow>
   call_tool name a s = (Inr [TextContent (py ''text'') (py ''Unknown tool: '' @ name)], s)"
  by (auto simp: call_tool_def list_tools_def)

lemma list_tools_cases:
  assumes "t \<in> set list_tools"
  obtains "tool_name t = py ''book_cab''" "required t = BookCabInput_required"
  | "tool_name t = py ''check_booking_status''" "required t = [py ''booking_id'']"
  | "tool_name t = py ''list_available_cabs''" "required t = [py ''location'']"
  using assms by (auto simp: list_tools_def)

lemma string_arguments_decide:
  "(t \<in> set list_tools \<and> has_keys a (required t) \<longrightarrow>
      (\<exists>out s'. call_tool (tool_name t) a s = (Inr out, s'))) \<and>
   (t \<in> set list_tools \<and> \<not> has_keys a (required t) \<longrightarrow>
      (\<exists>k \<in> set (required t). a k = None \<and> call_tool (tool_name t) a s = (Inl (KeyError k), s))) \<and>
   (name \<notin> tool_name ` set list_tools \<longrightarrow> (\<exists>out. call_tool name a s = (Inr out, s)))"
proof (intro conjI impI)
  assume h: "t \<in> set list_tools \<and> has_keys a (required t)"
  then have "t \<in> set list_tools" by simp
  then show "\<exists>out s'. call_tool (tool_name t) a s = (Inr out, s')"
  proof (cases rule: list_tools_cases)
    case 1
    with h show ?thesis by (simp add: call_tool_def book_cab_ok)
  next
    case 2
    with h show ?thesis
      by (auto simp: call_tool_def tool_names_distinct check_booking_status_result has_keys_def)
  next
    case 3
    with h show ?thesis
      by (auto simp: call_tool_def tool_names_distinct list_available_cabs_result has_keys_def)
  qed
next
  assume h: "t \<in> set list_tools \<and> \<not> has_keys a (required t)"
  then have "t \<in> set list_tools" by simp
  then show "\<exists>k \<in> set (required t). a k = None \<and> call_tool (tool_name t) a s = (Inl (KeyError k), s)"
  proof (cases rule: list_tools_cases)
    case 1
    with h have "\<not> has_keys a BookCabInput_required" by simp
    from book_cab_fail [OF this, of s] 1 show ?thesis by (simp add: call_tool_def)
  next
    case 2
    with h show ?thesis
      by (simp add: call_tool_def tool_names_distinct check_booking_status_result has_keys_def)
  next
    case 3
    with h show ?thesis
      by (simp add: call_tool_def tool_names_distinct list_available_cabs_result has_keys_def)
  qed
next
  assume "name \<notin> tool_name ` set list_tools"
  then show "\<exists>out. call_tool name a s = (Inr out, s)"
    by (simp add: call_tool_unknown)
qed



































text \<open>
  C8. A tool name that is none of the listed tools gets ordinary content,
  \<open>Unknown tool:\<close> and the name, and no exception; a resource URI other than
  \<open>booking://all\<close> and a prompt name other than \<open>booking_assistant\<close> raise \<open>ValueError\<close>.
\<close>

theorem failure_channels:
  "(name \<notin> tool_name ` set list_tools \<longrightarrow>
      call_tool name a s = (Inr [TextContent (py ''text'') (py ''Unknown tool: '' @ name)], s)) \<and>
   (uri \<noteq> py ''booking://all'' \<longrightarrow>
      read_resource uri s = Inl (ValueError (py ''Unknown resource: '' @ uri))) \<and>
   (pname \<noteq> py ''booking_assistant'' \<longrightarrow>
      get_prompt pname pargs = Inl (ValueError (py ''Unknown prompt: '' @ pname)))"
  by (simp add: call_tool_unknown read_resource_def get_prompt_def)

theorem failure_channels_witness:
  "py ''cancel_cab'' \<notin> tool_name ` set list_tools \<and>
   call_tool (py ''cancel_cab'') Map.empty init_state =
     (Inr [TextContent (py ''text'') (py ''Unknown tool: '' @ py ''cancel_cab'')], init_state) \<and>
   py ''booking://one'' \<noteq> py ''booking://all'' \<and>
   read_resource (py ''booking://one'') init_state =
     Inl (ValueError (py ''Unknown resource: '' @ py ''booking://one'')) \<and>
   py ''greeting'' \<noteq> py ''booking_assistant'' \<and>
   get_prompt (py ''greeting'') None = Inl (ValueError (py ''Unknown prompt: '' @ py ''greeting''))"
proof -
  have n: "py ''cancel_cab'' \<notin> tool_name ` set list_tools"
    by (simp add: list_tools_def py_def)
  have u: "py ''booking://one'' \<noteq> py ''booking://all''" by (simp add: py_def)
  have p: "py ''greeting'' \<noteq> py ''booking_assistant''" by (simp add: py_def)
  from failure_channels [of "py ''cancel_cab''" Map.empty init_state "py ''booking://one''"
      "py ''greeting''" None] n u p
  show ?thesis by blast
qed

text \<open>
  C9. \<open>check_booking_status\<close> and \<open>list_available_cabs\<close> leave the globals as they
  were, whatever their arguments, also when they raise; so does every call of a tool
  name other than \<open>book_cab\<close>: the store and the counter are the same after as before.
\<close>

theorem read_only_tools:
  "snd (call_tool (py ''check_booking_status'') a s) = s \<and>
   snd (call_tool (py ''list_available_cabs'') a s) = s \<and>
   (name \<noteq> py ''book_cab'' \<longrightarrow>
      bookings_db (snd (call_tool name a s)) = bookings_db s \<and>
      booking_counter (snd (call_tool name a s)) = booking_counter s)"
  by (simp add: call_tool_other_state tool_names_distinct)

theorem read_only_tools_witness:
  "py ''list_available_cabs'' \<noteq> py ''book_cab'' \<and>
   bookings_db (snd (call_tool (py ''list_available_cabs'') [py ''location'' \<mapsto> py ''Airport'']
       (run [(py ''book_cab'', airport_args)] init_state))) = bookings_db (run [(py ''book_cab'', airport_args)] init_state) \<and>
   booking_counter (snd (call_tool (py ''list_available_cabs'') [py ''location'' \<mapsto> py ''Airport'']
       (run [(py ''book_cab'', airport_args)] init_state))) = booking_counter (run [(py ''book_cab'', airport_args)] init_state)"
  using read_only_tools [of "[py ''location'' \<mapsto> py ''Airport'']" "run [(py ''book_cab'', airport_args)] init_state"
      "py ''list_available_cabs''"] tool_names_distinct
  by blast

section \<open>The bound on the calls of the decoder\<close>

text \<open>
  Every decoded value is read from at least one character, so a text cannot need more
  nested calls than the bound that \<open>json_loads\<close> starts with: any larger bound gives the
  same result.
\<close>

lemma cons_char_Some: "cons_char c r = Some (x, rest) \<Longrightarrow> \<exists>x'. r = Some (x', rest)"
  by (cases r) (auto simp: cons_char_def)

lemma scanstring_shorter: "scanstring s = Some (x, r) \<Longrightarrow> length r < length s"
proof (induction s arbitrary: x rule: scanstring.induct)
  case 1
  then show ?case by (simp add: scanstring.simps)
next
  case (2 c s)
  show ?case
  proof (cases "c = 34")
    case True
    with 2(6) show ?thesis by (simp add: scanstring.simps)
  next
    case n34: False
    show ?thesis
    proof (cases "c = 92")
      case False
      with n34 2(6) have c32: "\<not> c < 32" and "cons_char c (scanstring s) = Some (x, r)"
        by (auto simp: scanstring.simps split: if_splits)
      then obtain x' where "scanstring s = Some (x', r)" by (auto dest: cons_char_Some)
      from 2(5) [OF n34 False c32 this] show ?thesis by simp
    next
      case True
      show ?thesis
      proof (cases s)
        case Nil
        with True n34 2(6) show ?thesis by (simp add: scanstring.simps)
      next
        case (Cons e s1)
        show ?thesis
        proof (cases "e = 117")
          case False
          with True n34 Cons 2(6) obtain ch where ch: "unescape e = Some ch"
            and "cons_char ch (scanstring s1) = Some (x, r)"
            by (auto simp: scanstring.simps split: option.splits)
          then obtain x' where "scanstring s1 = Some (x', r)" by (auto dest: cons_char_Some)
          from 2(4) [OF n34 True Cons False ch this] Cons show ?thesis by simp
        next
          case u: True
          with True n34 Cons 2(6) obtain uni where uni: "decode_uXXXX s1 = Some uni"
            by (auto simp: scanstring.simps split: option.splits)
          show ?thesis
          proof (cases "55296 \<le> uni \<and> uni \<le> 56319 \<and> take 2 (drop 4 s1) = [92, 117]")
            case False
            with True n34 Cons u uni 2(6) have "cons_char uni (scanstring (drop 4 s1)) = Some (x, r)"
              by (auto simp: scanstring.simps)
            then obtain x' where "scanstring (drop 4 s1) = Some (x', r)" by (auto dest: cons_char_Some)
            from 2(3) [OF n34 True Cons u uni False this] Cons show ?thesis by simp
          next
            case pair: True
            with True n34 Cons u uni 2(6) obtain uni2 where uni2: "decode_uXXXX (drop 6 s1) = Some uni2"
              by (auto simp: scanstring.simps split: option.splits)
            show ?thesis
            proof (cases "56320 \<le> uni2 \<and> uni2 \<le> 57343")
              case low: True
              with True n34 Cons u uni pair uni2 2(6)
              have "cons_char (65536 + ((uni - 55296) * 1024 + (uni2 - 56320)))
                      (scanstring (drop 10 s1)) = Some (x, r)"
                by (simp add: scanstring.simps)
              then obtain x' where "scanstring (drop 10 s1) = Some (x', r)"
                by (auto dest: cons_char_Some)
              from 2(1) [OF n34 True Cons u uni pair uni2 low this] Cons show ?thesis by simp
            next
              case False
              with True n34 Cons u uni pair uni2 2(6)
              have "cons_char uni (scanstring (drop 4 s1)) = Some (x, r)"
                by (simp add: scanstring.simps)
              then obtain x' where "scanstring (drop 4 s1) = Some (x', r)"
                by (auto dest: cons_char_Some)
              from 2(2) [OF n34 True Cons u uni pair uni2 False this] Cons show ?thesis by simp
            qed
          qed
        qed
      qed
    qed
  qed
qed

lemma skip_ws_length: "length (skip_ws s) \<le> length s"
  by (simp add: skip_ws_def length_dropWhile_le)

lemma skip_ws_Cons: "skip_ws s = c # r \<Longrightarrow> length r < length s"
  using skip_ws_length [of s] by simp

lemma object_start_shorter: "object_start s = Some (d, r) \<Longrightarrow> length r < length s"
  by (auto simp: object_start_def split: list.splits if_splits dest: skip_ws_Cons)

lemma expect_colon_shorter: "expect_colon s = Some r \<Longrightarrow> length r < length s"
proof -
  assume "expect_colon s = Some r"
  then obtain t where "skip_ws s = 58 # t" "r = skip_ws t"
    by (auto simp: expect_colon_def split: list.splits if_splits)
  with skip_ws_Cons [of s 58 t] skip_ws_length [of t] show ?thesis by simp
qed

lemma object_next_shorter: "object_next s = Some (d, r) \<Longrightarrow> length r < length s"
proof -
  assume h: "object_next s = Some (d, r)"
  then obtain c t where ct: "skip_ws s = c # t"
    by (auto simp: object_next_def split: list.splits)
  then have t: "length t < length s" by (rule skip_ws_Cons)
  show ?thesis
  proof (cases "c = 125")
    case True
    with h ct t show ?thesis by (simp add: object_next_def)
  next
    case False
    with h ct obtain c' where "skip_ws t = c' # r"
      by (auto simp: object_next_def split: list.splits if_splits)
    from skip_ws_Cons [OF this] t show ?thesis by simp
  qed
qed

lemma array_start_length: "array_start s = Some (d, r) \<Longrightarrow> length r \<le> length s"
proof -
  assume h: "array_start s = Some (d, r)"
  then obtain c t where ct: "skip_ws s = c # t"
    by (auto simp: array_start_def split: list.splits)
  with h have "r = t \<or> r = c # t" by (auto simp: array_start_def split: if_splits)
  with ct skip_ws_length [of s] show ?thesis by auto
qed

lemma array_next_shorter: "array_next s = Some (d, r) \<Longrightarrow> length r < length s"
proof -
  assume h: "array_next s = Some (d, r)"
  then obtain c t where ct: "skip_ws s = c # t"
    by (auto simp: array_next_def split: list.splits)
  with h have "r = t \<or> r = skip_ws t" by (auto simp: array_next_def split: if_splits)
  with skip_ws_Cons [OF ct] skip_ws_length [of t] show ?thesis by auto
qed

lemma drop_shorter: "s \<noteq> [] \<Longrightarrow> 0 < n \<Longrightarrow> length (drop n s) < length s"
  by (cases s) auto

lemma match_number_shorter: "match_number s = Some (v, r) \<Longrightarrow> length r < length s"
proof -
  assume h: "match_number s = Some (v, r)"
  define i where "i = match_integer s"
  define f where "f = match_frac (drop i s)"
  define e where "e = match_exp (drop (i + f) s)"
  from h have i: "0 < i" by (auto simp: match_number_def Let_def i_def split: if_splits)
  then have ne: "s \<noteq> []" by (auto simp: i_def match_integer_def Let_def)
  from h have "r = drop i s \<or> r = drop (i + f + e) s"
    by (auto simp: match_number_def Let_def i_def f_def e_def split: if_splits)
  with drop_shorter [OF ne, of i] drop_shorter [OF ne, of "i + f + e"] i show ?thesis by auto
qed

lemma scan_constant_shorter: "scan_constant s = Some (v, r) \<Longrightarrow> length r < length s"
proof (cases "s = []")
  case True
  then show "scan_constant s = Some (v, r) \<Longrightarrow> length r < length s"
    by (simp add: scan_constant_def py_def match_number_def match_integer_def Let_def)
next
  case False
  assume h: "scan_constant s = Some (v, r)"
  then have "r = drop 4 s \<or> r = drop 5 s \<or> match_number s = Some (v, r)"
    by (auto simp: scan_constant_def split: if_splits)
  with drop_shorter [OF False, of 4] drop_shorter [OF False, of 5] match_number_shorter [of s v r]
  show ?thesis by auto
qed

lemma parse_string_shorter: "parse_string s = Some (v, r) \<Longrightarrow> length r < length s"
  by (auto simp: parse_string_def split: option.splits dest: scanstring_shorter)

lemma decoder_shorter:
  "(\<forall>s v r. scan_once n s = Some (v, r) \<longrightarrow> length r < length s) \<and>
   (\<forall>p s v r. JSONObject n p s = Some (v, r) \<longrightarrow> length r < length s) \<and>
   (\<forall>vs s v r. JSONArray n vs s = Some (v, r) \<longrightarrow> length r < length s)"
proof (induction n)
  case 0
  show ?case by (simp add: scan_once.simps JSONObject.simps JSONArray.simps)
next
  case (Suc n)
  then have ih_obj: "\<And>p s v r. JSONObject n p s = Some (v, r) \<Longrightarrow> length r < length s"
    and ih_arr: "\<And>vs s v r. JSONArray n vs s = Some (v, r) \<Longrightarrow> length r < length s"
    and ih_val: "\<And>s v r. scan_once n s = Some (v, r) \<Longrightarrow> length r < length s"
    by blast+
  have val: "length r < length s" if h: "scan_once (Suc n) s = Some (v, r)" for s v r
  proof (cases s)
    case Nil
    with h show ?thesis by (simp add: scan_once.simps)
  next
    case (Cons c t)
    consider "c = 34" | "c \<noteq> 34" "c = 123" | "c \<noteq> 34" "c \<noteq> 123" "c = 91"
      | "c \<noteq> 34" "c \<noteq> 123" "c \<noteq> 91" by blast
    then show ?thesis
    proof cases
      case 1
      with h Cons have "parse_string t = Some (v, r)" by (simp add: scan_once.simps)
      from parse_string_shorter [OF this] Cons show ?thesis by simp
    next
      case 2
      with h Cons obtain d t' where st: "object_start t = Some (d, t')"
        and res: "(if d then Some (PDict [], t') else JSONObject n [] t') = Some (v, r)"
        by (auto simp: scan_once.simps split: option.splits)
      from object_start_shorter [OF st] have t': "length t' < length t" .
      from res have "length r \<le> length t'"
        by (cases d) (auto dest: ih_obj less_imp_le)
      with t' Cons show ?thesis by simp
    next
      case 3
      with h Cons obtain d t' where st: "array_start t = Some (d, t')"
        and res: "(if d then Some (PList [], t') else JSONArray n [] t') = Some (v, r)"
        by (auto simp: scan_once.simps split: option.splits)
      from array_start_length [OF st] have t': "length t' \<le> length t" .
      from res have "length r \<le> length t'"
        by (cases d) (auto dest: ih_arr less_imp_le)
      with t' Cons show ?thesis by simp
    next
      case 4
      with h Cons have "scan_constant s = Some (v, r)" by (simp add: scan_once.simps)
      then show ?thesis by (rule scan_constant_shorter)
    qed
  qed
  have obj: "length r < length s" if h: "JSONObject (Suc n) p s = Some (v, r)" for p s v r
  proof -
    from h obtain key s1 s2 x s3 d s4 where
      a: "scanstring s = Some (key, s1)" and b: "expect_colon s1 = Some s2"
      and c: "scan_once n s2 = Some (x, s3)" and e: "object_next s3 = Some (d, s4)"
      and res: "(if d then Some (PDict (dict_of_pairs (p @ [(key, x)])), s4)
                else JSONObject n (p @ [(key, x)]) s4) = Some (v, r)"
      by (auto simp: JSONObject.simps split: option.splits)
    from res have "length r \<le> length s4"
      by (cases d) (auto dest: ih_obj less_imp_le)
    with scanstring_shorter [OF a] expect_colon_shorter [OF b] ih_val [OF c]
      object_next_shorter [OF e] show ?thesis by simp
  qed
  have arr: "length r < length s" if h: "JSONArray (Suc n) vs s = Some (v, r)" for vs s v r
  proof -
    from h obtain x s1 d s2 where
      c: "scan_once n s = Some (x, s1)" and e: "array_next s1 = Some (d, s2)"
      and res: "(if d then Some (PList (vs @ [x]), s2) else JSONArray n (vs @ [x]) s2) = Some (v, r)"
      by (auto simp: JSONArray.simps split: option.splits)
    from res have "length r \<le> length s2"
      by (cases d) (auto dest: ih_arr less_imp_le)
    with ih_val [OF c] array_next_shorter [OF e] show ?thesis by simp
  qed
  from val obj arr show ?case by blast
qed

lemma scan_once_shorter: "scan_once n s = Some (v, r) \<Longrightarrow> length r < length s"
  using decoder_shorter [of n] by blast

lemma decoder_fuel:
  "(\<forall>s m. 2 * length s + 1 \<le> n \<longrightarrow> n \<le> m \<longrightarrow> scan_once m s = scan_once n s) \<and>
   (\<forall>p s m. 2 * length s + 2 \<le> n \<longrightarrow> n \<le> m \<longrightarrow> JSONObject m p s = JSONObject n p s) \<and>
   (\<forall>vs s m. 2 * length s + 2 \<le> n \<longrightarrow> n \<le> m \<longrightarrow> JSONArray m vs s = JSONArray n vs s)"
proof (induction n)
  case 0
  show ?case by simp
next
  case (Suc n)
  then have ih_val: "\<And>s m. 2 * length s + 1 \<le> n \<Longrightarrow> n \<le> m \<Longrightarrow> scan_once m s = scan_once n s"
    and ih_obj: "\<And>p s m. 2 * length s + 2 \<le> n \<Longrightarrow> n \<le> m \<Longrightarrow> JSONObject m p s = JSONObject n p s"
    and ih_arr: "\<And>vs s m. 2 * length s + 2 \<le> n \<Longrightarrow> n \<le> m \<Longrightarrow> JSONArray m vs s = JSONArray n vs s"
    by blast+
  have val: "scan_once m s = scan_once (Suc n) s"
    if len: "2 * length s + 1 \<le> Suc n" and m: "Suc n \<le> m" for s m
  proof -
    from m obtain m' where m': "m = Suc m'" "n \<le> m'" by (cases m) auto
    show ?thesis
    proof (cases s)
      case Nil
      then show ?thesis by (simp add: m' scan_once.simps)
    next
      case (Cons c t)
      have o: "JSONObject m' [] t' = JSONObject n [] t'" if "object_start t = Some (d, t')" for d t'
        using object_start_shorter [OF that] len Cons m'(2) by (intro ih_obj) simp_all
      have a: "JSONArray m' [] t' = JSONArray n [] t'" if "array_start t = Some (d, t')" for d t'
        using array_start_length [OF that] len Cons m'(2) by (intro ih_arr) simp_all
      show ?thesis
        unfolding m'(1) Cons
        by (auto simp: scan_once.simps o a split: option.splits)
    qed
  qed
  have obj: "JSONObject m p s = JSONObject (Suc n) p s"
    if len: "2 * length s + 2 \<le> Suc n" and m: "Suc n \<le> m" for p s m
  proof -
    from m obtain m' where m': "m = Suc m'" "n \<le> m'" by (cases m) auto
    have v: "scan_once m' s2 = scan_once n s2"
      if "scanstring s = Some (key, s1)" "expect_colon s1 = Some s2" for key s1 s2
      using scanstring_shorter [OF that(1)] expect_colon_shorter [OF that(2)] len m'(2)
      by (intro ih_val) simp_all
    have o: "JSONObject m' q s4 = JSONObject n q s4"
      if "scanstring s = Some (key, s1)" "expect_colon s1 = Some s2"
        "scan_once n s2 = Some (x, s3)" "object_next s3 = Some (d, s4)" for key s1 s2 x s3 d s4 q
      using scanstring_shorter [OF that(1)] expect_colon_shorter [OF that(2)]
        scan_once_shorter [OF that(3)] object_next_shorter [OF that(4)] len m'(2)
      by (intro ih_obj) simp_all
    show ?thesis
      unfolding m'(1)
      by (auto simp: JSONObject.simps v o split: option.splits)
  qed
  have arr: "JSONArray m vs s = JSONArray (Suc n) vs s"
    if len: "2 * length s + 2 \<le> Suc n" and m: "Suc n \<le> m" for vs s m
  proof -
    from m obtain m' where m': "m = Suc m'" "n \<le> m'" by (cases m) auto
    have v: "scan_once m' s = scan_once n s"
      using len m'(2) by (intro ih_val) simp_all
    have a: "JSONArray m' q s2 = JSONArray n q s2"
      if "scan_once n s = Some (x, s1)" "array_next s1 = Some (d, s2)" for x s1 d s2 q
      using scan_once_shorter [OF that(1)] array_next_shorter [OF that(2)] len m'(2)
      by (intro ih_arr) simp_all
    show ?thesis
      unfolding m'(1)
      by (auto simp: JSONArray.simps v a split: option.splits)
  qed
  from val obj arr show ?case by blast
qed

lemma scan_once_fuel:
  "2 * length s + 1 \<le> n \<Longrightarrow> n \<le> m \<Longrightarrow> scan_once m s = scan_once n s"
  using decoder_fuel [of n] by blast

lemma json_loads_fuel:
  assumes "2 * length s + 1 \<le> n"
  shows "scan_once n (skip_ws s) = scan_once (2 * length s + 1) (skip_ws s)"
proof -
  have "2 * length (skip_ws s) + 1 \<le> 2 * length s + 1"
    using skip_ws_length [of s] by simp
  from scan_once_fuel [OF this assms] show ?thesis .
qed

section \<open>Decoding what the encoder writes\<close>

lemma hexval_hexdigit: "d < 16 \<Longrightarrow> hexval (hexdigit d) = Some d"
  by (auto simp: hexval_def hexdigit_def)

lemma hex_digits_value:
  fixes n :: nat
  assumes "n < 65536"
  shows "((n div 4096 mod 16 * 16 + n div 256 mod 16) * 16 + n div 16 mod 16) * 16 + n mod 16 = n"
proof -
  define a where "a = n div 16"
  define b where "b = a div 16"
  define c where "c = b div 16"
  have b256: "n div 256 = b" unfolding b_def a_def by (simp add: div_mult2_eq [symmetric])
  have c4096: "n div 4096 = c" unfolding c_def b_def a_def by (simp add: div_mult2_eq [symmetric])
  have "c < 16" using assms unfolding c4096 [symmetric] by simp
  then have cm: "c mod 16 = c" by simp
  define r0 where "r0 = n mod 16"
  define r1 where "r1 = a mod 16"
  define r2 where "r2 = b mod 16"
  have n: "n = 16 * a + r0" unfolding a_def r0_def by simp
  have a: "a = 16 * b + r1" unfolding b_def r1_def by simp
  have b: "b = 16 * c + r2" unfolding c_def r2_def by simp
  have "((c * 16 + r2) * 16 + r1) * 16 + r0 = n"
  proof -
    have "((c * 16 + r2) * 16 + r1) * 16 + r0 = 16 * (16 * (16 * c + r2) + r1) + r0"
      by (simp add: algebra_simps)
    also have "\<dots> = 16 * (16 * b + r1) + r0" using b by simp
    also have "\<dots> = 16 * a + r0" using a by simp
    also have "\<dots> = n" using n by simp
    finally show ?thesis .
  qed
  then show ?thesis
    unfolding r0_def r1_def r2_def by (simp add: b256 c4096 cm a_def [symmetric])
qed

lemma decode_hex4: "n < 65536 \<Longrightarrow> decode_uXXXX (hex4 n @ r) = Some n"
  using hex_digits_value [of n]
  by (simp add: decode_uXXXX_def hex4_def hexval_hexdigit)

lemma length_hex4: "length (hex4 n) = 4"
  by (simp add: hex4_def)

lemma escape_char_u: "escaped_u c \<Longrightarrow> c < 65536 \<Longrightarrow> escape_char c = [92, 117] @ hex4 c"
  by (simp add: escape_char_def escaped_u_def)

lemma escape_char_astral:
  "65536 \<le> c \<Longrightarrow>
   escape_char c = [92, 117] @ hex4 (55296 + (c - 65536) div 1024 mod 1024) @
                   [92, 117] @ hex4 (56320 + (c - 65536) mod 1024)"
  by (simp add: escape_char_def Let_def)

lemma escape_char_plain:
  "\<not> escaped_u c \<Longrightarrow> c \<noteq> 34 \<Longrightarrow> c \<noteq> 92 \<Longrightarrow> c \<noteq> 10 \<Longrightarrow> c \<noteq> 13 \<Longrightarrow> c \<noteq> 9 \<Longrightarrow> c \<noteq> 8 \<Longrightarrow> c \<noteq> 12 \<Longrightarrow>
   escape_char c = [c] \<and> 32 \<le> c"
  by (simp add: escape_char_def escaped_u_def)

lemma scan_plain:
  "c \<noteq> 34 \<Longrightarrow> c \<noteq> 92 \<Longrightarrow> 32 \<le> c \<Longrightarrow> scanstring (c # t) = cons_char c (scanstring t)"
  by (simp add: scanstring.simps)

lemma scan_short:
  "unescape e = Some ch \<Longrightarrow> e \<noteq> 117 \<Longrightarrow> scanstring (92 # e # t) = cons_char ch (scanstring t)"
  by (simp add: scanstring.simps)

lemma scan_u_single:
  "decode_uXXXX s1 = Some u \<Longrightarrow>
   \<not> (55296 \<le> u \<and> u \<le> 56319 \<and> take 2 (drop 4 s1) = [92, 117]) \<Longrightarrow>
   scanstring (92 # 117 # s1) = cons_char u (scanstring (drop 4 s1))"
  by (auto simp: scanstring.simps)

lemma scan_u_unpaired:
  "decode_uXXXX s1 = Some u \<Longrightarrow> decode_uXXXX (drop 6 s1) = Some u2 \<Longrightarrow>
   \<not> (56320 \<le> u2 \<and> u2 \<le> 57343) \<Longrightarrow>
   scanstring (92 # 117 # s1) = cons_char u (scanstring (drop 4 s1))"
  by (auto simp: scanstring.simps)

lemma scan_u_paired:
  "decode_uXXXX s1 = Some u \<Longrightarrow> 55296 \<le> u \<Longrightarrow> u \<le> 56319 \<Longrightarrow>
   take 2 (drop 4 s1) = [92, 117] \<Longrightarrow> decode_uXXXX (drop 6 s1) = Some u2 \<Longrightarrow>
   56320 \<le> u2 \<Longrightarrow> u2 \<le> 57343 \<Longrightarrow>
   scanstring (92 # 117 # s1) =
     cons_char (65536 + ((u - 55296) * 1024 + (u2 - 56320))) (scanstring (drop 10 s1))"
  by (simp add: scanstring.simps)

lemma drop_hex4: "drop 4 (hex4 u @ t) = t" "drop 6 (hex4 u @ t) = drop 2 t"
  by (simp_all add: hex4_def)

lemma scan_u:
  assumes "u < 65536" and "\<not> (55296 \<le> u \<and> u \<le> 56319 \<and> joins t)"
  shows "scanstring (92 # 117 # hex4 u @ t) = cons_char u (scanstring t)"
proof -
  have dec: "decode_uXXXX (hex4 u @ t) = Some u"
    using assms(1) by (rule decode_hex4)
  show ?thesis
  proof (cases "55296 \<le> u \<and> u \<le> 56319 \<and> take 2 t = [92, 117]")
    case False
    then have "\<not> (55296 \<le> u \<and> u \<le> 56319 \<and> take 2 (drop 4 (hex4 u @ t)) = [92, 117])"
      unfolding drop_hex4 by blast
    from scan_u_single [OF dec this] show ?thesis by (simp only: drop_hex4)
  next
    case True
    with assms(2) have "\<not> joins t" by simp
    with True obtain u2 where "decode_uXXXX (drop 2 t) = Some u2" "\<not> (56320 \<le> u2 \<and> u2 \<le> 57343)"
      by (auto simp: joins_def split: option.splits)
    then have "decode_uXXXX (drop 6 (hex4 u @ t)) = Some u2" "\<not> (56320 \<le> u2 \<and> u2 \<le> 57343)"
      unfolding drop_hex4 by blast+
    from scan_u_unpaired [OF dec this] show ?thesis by (simp only: drop_hex4)
  qed
qed

lemma scan_pair:
  assumes "55296 \<le> u1" "u1 \<le> 56319" "56320 \<le> u2" "u2 \<le> 57343"
  shows "scanstring (92 # 117 # hex4 u1 @ 92 # 117 # hex4 u2 @ t) =
         cons_char (65536 + ((u1 - 55296) * 1024 + (u2 - 56320))) (scanstring t)"
proof -
  have d4: "take 2 (drop 4 (hex4 u1 @ 92 # 117 # hex4 u2 @ t)) = [92, 117]"
    and d6: "drop 6 (hex4 u1 @ 92 # 117 # hex4 u2 @ t) = hex4 u2 @ t"
    and d10: "drop 10 (hex4 u1 @ 92 # 117 # hex4 u2 @ t) = t"
    by (simp_all add: hex4_def)
  have u1: "decode_uXXXX (hex4 u1 @ 92 # 117 # hex4 u2 @ t) = Some u1"
    using assms(2) by (simp add: decode_hex4)
  have u2: "decode_uXXXX (drop 6 (hex4 u1 @ 92 # 117 # hex4 u2 @ t)) = Some u2"
    using assms(4) by (simp only: d6) (simp add: decode_hex4)
  from scan_u_paired [OF u1 assms(1,2) d4 u2 assms(3,4)] show ?thesis
    by (simp only: d10)
qed

lemma astral_units:
  fixes c :: nat
  assumes "65536 \<le> c" "c < 1114112"
  shows "55296 \<le> 55296 + (c - 65536) div 1024 mod 1024"
    and "55296 + (c - 65536) div 1024 mod 1024 \<le> 56319"
    and "56320 \<le> 56320 + (c - 65536) mod 1024"
    and "56320 + (c - 65536) mod 1024 \<le> 57343"
    and "65536 + ((55296 + (c - 65536) div 1024 mod 1024 - 55296) * 1024 +
            (56320 + (c - 65536) mod 1024 - 56320)) = c"
proof -
  define n where "n = c - 65536"
  have n: "n < 1048576" "c = 65536 + n" using assms by (simp_all add: n_def)
  then have d: "n div 1024 < 1024" by simp
  have m: "n mod 1024 < 1024" by simp
  show "55296 \<le> 55296 + (c - 65536) div 1024 mod 1024" by simp
  show "55296 + (c - 65536) div 1024 mod 1024 \<le> 56319"
    using d by (simp add: n_def [symmetric])
  show "56320 \<le> 56320 + (c - 65536) mod 1024" by simp
  show "56320 + (c - 65536) mod 1024 \<le> 57343"
    using m by (simp add: n_def [symmetric])
  have "n div 1024 * 1024 + n mod 1024 = n" by simp
  with d show "65536 + ((55296 + (c - 65536) div 1024 mod 1024 - 55296) * 1024 +
            (56320 + (c - 65536) mod 1024 - 56320)) = c"
    by (simp add: n_def [symmetric] n(2))
qed

lemma escape_char_printable:
  "32 \<le> c \<Longrightarrow> c \<le> 126 \<Longrightarrow> c \<noteq> 34 \<Longrightarrow> c \<noteq> 92 \<Longrightarrow> escape_char c = [c]"
  by (simp add: escape_char_def)

lemma escape_cases:
  obtains "c = 34" | "c = 92" | "c = 10" | "c = 13" | "c = 9" | "c = 8" | "c = 12"
  | "escaped_u c" "c < 65536"
  | "65536 \<le> c"
  | "escape_char c = [c]" "32 \<le> c" "c \<noteq> 34" "c \<noteq> 92"
proof -
  consider "c = 34" | "c = 92" | "c = 10" | "c = 13" | "c = 9" | "c = 8" | "c = 12"
    | "escaped_u c" "c < 65536" | "65536 \<le> c"
    | "32 \<le> c" "c \<le> 126" "c \<noteq> 34" "c \<noteq> 92"
    unfolding escaped_u_def by fastforce
  then show ?thesis
    using that by cases (auto simp: escape_char_printable)
qed

lemma escape_step:
  assumes "c < 1114112" and "\<not> (55296 \<le> c \<and> c \<le> 56319 \<and> joins t)"
  shows "scanstring (escape_char c @ t) = cons_char c (scanstring t)"
proof (cases c rule: escape_cases)
  case 8
  with assms(2) show ?thesis by (simp add: escape_char_u scan_u)
next
  case 9
  from astral_units [OF 9 assms(1)] show ?thesis
    by (simp only: escape_char_astral [OF 9] append_Cons append_Nil append_assoc)
       (simp only: scan_pair)
next
  case 10
  then show ?thesis by (simp add: scan_plain)
qed (simp_all add: escape_char_def unescape_def scan_short)

lemma joins_quote: "\<not> joins (34 # rest)"
  by (simp add: joins_def)

lemma joins_escape:
  assumes "c < 1114112" and "\<not> (56320 \<le> c \<and> c \<le> 57343)"
  shows "\<not> joins (escape_char c @ t)"
proof (cases c rule: escape_cases)
  case 8
  with assms(2) show ?thesis by (simp add: escape_char_u joins_def decode_hex4)
next
  case 9
  from astral_units(2) [OF 9 assms(1)] show ?thesis
    by (simp add: escape_char_astral [OF 9] joins_def decode_hex4)
next
  case 10
  then show ?thesis by (simp add: joins_def)
qed (simp_all add: escape_char_def joins_def)

lemma scan_escaped:
  "json_safe s \<Longrightarrow> scanstring (concat (map escape_char s) @ 34 # rest) = Some (s, rest)"
proof (induction s rule: json_safe.induct)
  case 1
  show ?case by (simp add: scanstring.simps)
next
  case (2 c)
  then have "scanstring (escape_char c @ 34 # rest) = cons_char c (scanstring (34 # rest))"
    by (simp add: escape_step joins_quote)
  then show ?case by (simp add: cons_char_def scanstring.simps)
next
  case (3 c c' s)
  let ?t = "concat (map escape_char s) @ 34 # rest"
  from 3 have c: "c < 1114112" and c': "c' < 1114112"
    and nj: "\<not> (55296 \<le> c \<and> c \<le> 56319 \<and> 56320 \<le> c' \<and> c' \<le> 57343)"
    and ih: "scanstring (escape_char c' @ ?t) = Some (c' # s, rest)"
    by (cases s; simp)+
  have "\<not> (55296 \<le> c \<and> c \<le> 56319 \<and> joins (escape_char c' @ ?t))"
    using nj joins_escape [OF c', of ?t] by blast
  from escape_step [OF c this] ih show ?case by (simp add: cons_char_def)
qed

lemma scan_encoded:
  "json_safe s \<Longrightarrow> scanstring (tl (encode_basestring_ascii s) @ rest) = Some (s, rest)"
  by (simp add: encode_basestring_ascii_def scan_escaped)

lemma skip_ws_nonws: "\<not> is_ws c \<Longrightarrow> skip_ws (c # r) = c # r"
  by (simp add: skip_ws_def)

lemma skip_ws_indent: "\<not> is_ws c \<Longrightarrow> skip_ws (newline_indent l @ c # r) = c # r"
proof -
  assume c: "\<not> is_ws c"
  have "\<And>x. x \<in> set (newline_indent l) \<Longrightarrow> is_ws x"
    by (auto simp: newline_indent_def nl_def spaces_def is_ws_def)
  then have "dropWhile is_ws (newline_indent l @ c # r) = dropWhile is_ws (c # r)"
    by (rule dropWhile_append2)
  with c show ?thesis by (simp add: skip_ws_def)
qed

lemma delim_indent: "delim (newline_indent l @ x)"
  by (simp add: delim_def newline_indent_def nl_def)

lemma delim_comma: "delim (py '','' @ x)"
  by (simp add: delim_def py_def)

lemma expect_colon_sep: "\<not> is_ws c \<Longrightarrow> expect_colon (py '': '' @ c # t) = Some (c # t)"
  by (simp add: expect_colon_def py_def skip_ws_def is_ws_def)

lemma object_start_first: "object_start (newline_indent l @ 34 # t) = Some (False, t)"
  by (simp add: object_start_def skip_ws_indent is_ws_def)

lemma object_next_end: "object_next (newline_indent l @ py ''}'' @ rest) = Some (True, rest)"
  by (simp add: object_next_def py_def skip_ws_indent is_ws_def)

lemma object_next_more: "object_next (py '','' @ newline_indent l @ [34] @ t) = Some (False, t)"
  by (simp add: object_next_def py_def skip_ws_nonws skip_ws_indent is_ws_def)

lemma object_step:
  "scanstring s = Some (key, s1) \<Longrightarrow> expect_colon s1 = Some s2 \<Longrightarrow>
   scan_once n s2 = Some (v, s3) \<Longrightarrow> object_next s3 = Some (done, s4) \<Longrightarrow>
   JSONObject (Suc n) pairs s =
     (if done then Some (PDict (dict_of_pairs (pairs @ [(key, v)])), s4)
      else JSONObject n (pairs @ [(key, v)]) s4)"
  by (simp add: JSONObject.simps)

lemma object_members:
  assumes "kvs \<noteq> []"
    and "\<forall>kv \<in> set kvs. json_safe (fst kv) \<and> parses (snd kv) (Suc l) n"
    and "n + length kvs \<le> m"
  shows "JSONObject m acc (mtail l kvs rest) = Some (PDict (dict_of_pairs (acc @ kvs)), rest)"
  using assms
proof (induction l kvs rest arbitrary: acc m rule: mtail.induct)
  case (1 l rest)
  then show ?case by simp
next
  case (2 l kv rest)
  from 2(3) obtain m' where m: "m = Suc m'" "n \<le> m'" by (cases m) auto
  from 2(2) have safe: "json_safe (fst kv)" and p: "parses (snd kv) (Suc l) n" by simp_all
  from p obtain c t where ct: "iterencode (Suc l) (snd kv) = c # t" "\<not> is_ws c"
    by (auto simp: parses_def)
  let ?after = "newline_indent l @ py ''}'' @ rest"
  have s1: "scanstring (mtail l [kv] rest) =
      Some (fst kv, py '': '' @ iterencode (Suc l) (snd kv) @ ?after)"
    by (simp add: scan_encoded [OF safe])
  have s2: "expect_colon (py '': '' @ iterencode (Suc l) (snd kv) @ ?after) =
      Some (iterencode (Suc l) (snd kv) @ ?after)"
    using expect_colon_sep [OF ct(2)] by (simp add: ct(1))
  have s3: "scan_once m' (iterencode (Suc l) (snd kv) @ ?after) = Some (snd kv, ?after)"
    using p m(2) by (simp add: parses_def delim_indent)
  have s4: "object_next ?after = Some (True, rest)" by (rule object_next_end)
  show ?case unfolding m(1) by (subst object_step [OF s1 s2 s3 s4]) simp
next
  case (3 l kv kv' kvs rest)
  from 3(4) obtain m' where m: "m = Suc m'" "n \<le> m'" "n + length (kv' # kvs) \<le> m'"
    by (cases m) auto
  from 3(3) have safe: "json_safe (fst kv)" and p: "parses (snd kv) (Suc l) n"
    and others: "\<forall>kv \<in> set (kv' # kvs). json_safe (fst kv) \<and> parses (snd kv) (Suc l) n"
    by simp_all
  from p obtain c t where ct: "iterencode (Suc l) (snd kv) = c # t" "\<not> is_ws c"
    by (auto simp: parses_def)
  let ?next = "mtail l (kv' # kvs) rest"
  let ?after = "py '','' @ newline_indent (Suc l) @ [34] @ ?next"
  have s1: "scanstring (mtail l (kv # kv' # kvs) rest) =
      Some (fst kv, py '': '' @ iterencode (Suc l) (snd kv) @ ?after)"
    by (simp add: scan_encoded [OF safe])
  have s2: "expect_colon (py '': '' @ iterencode (Suc l) (snd kv) @ ?after) =
      Some (iterencode (Suc l) (snd kv) @ ?after)"
    using expect_colon_sep [OF ct(2)] by (simp add: ct(1))
  have s3: "scan_once m' (iterencode (Suc l) (snd kv) @ ?after) = Some (snd kv, ?after)"
    using p m(2) by (simp add: parses_def delim_comma)
  have s4: "object_next ?after = Some (False, ?next)" by (rule object_next_more)
  have "JSONObject m' (acc @ [kv]) ?next =
      Some (PDict (dict_of_pairs ((acc @ [kv]) @ kv' # kvs)), rest)"
    using others m(3) by (intro 3(1)) simp_all
  then show ?case unfolding m(1) by (subst object_step [OF s1 s2 s3 s4]) simp
qed

lemma dict_text:
  "kvs \<noteq> [] \<Longrightarrow>
   join (py '','' @ newline_indent (Suc l))
     (map (\<lambda>kv. encode_basestring_ascii (fst kv) @ py '': '' @ iterencode (Suc l) (snd kv)) kvs) @
   newline_indent l @ py ''}'' @ rest = 34 # mtail l kvs rest"
proof (induction l kvs rest rule: mtail.induct)
  case (1 l rest)
  then show ?case by simp
next
  case (2 l kv rest)
  show ?case by (simp add: encode_basestring_ascii_def)
next
  case (3 l kv kv' kvs rest)
  then show ?case by (simp add: encode_basestring_ascii_def)
qed

lemma foldl_dict_set:
  "distinct (map fst (d @ kvs)) \<Longrightarrow> foldl (\<lambda>d kv. dict_set d (fst kv) (snd kv)) d kvs = d @ kvs"
proof (induction kvs arbitrary: d)
  case Nil
  show ?case by simp
next
  case (Cons kv kvs)
  from Cons.prems have fresh: "fst kv \<notin> set (dict_keys d)" by (auto simp: dict_keys_def)
  from Cons.prems have "distinct (map fst ((d @ [kv]) @ kvs))" by simp
  from Cons.IH [OF this] show ?case by (simp add: dict_set_fresh [OF fresh])
qed

lemma dict_of_pairs_distinct: "distinct (map fst kvs) \<Longrightarrow> dict_of_pairs kvs = kvs"
  using foldl_dict_set [of "[]" kvs] by (simp add: dict_of_pairs_def)

lemma parses_dict:
  assumes "kvs \<noteq> []"
    and "\<forall>kv \<in> set kvs. json_safe (fst kv) \<and> parses (snd kv) (Suc l) n"
    and "distinct (map fst kvs)"
  shows "parses (PDict kvs) l (Suc (n + length kvs))"
  unfolding parses_def
proof (intro conjI allI impI)
  show "\<exists>c t. iterencode l (PDict kvs) = c # t \<and> \<not> is_ws c"
    using assms(1) by (simp add: py_def is_ws_def)
next
  fix m :: nat and rest :: pystr
  assume m: "Suc (n + length kvs) \<le> m"
  then obtain m' where m': "m = Suc m'" "n + length kvs \<le> m'" by (cases m) auto
  have enc: "iterencode l (PDict kvs) @ rest = 123 # newline_indent (Suc l) @ 34 # mtail l kvs rest"
    using assms(1) dict_text [OF assms(1), of l rest] by (simp add: py_def)
  have "JSONObject m' [] (mtail l kvs rest) = Some (PDict (dict_of_pairs ([] @ kvs)), rest)"
    using assms(1,2) m'(2) by (rule object_members)
  then show "scan_once m (iterencode l (PDict kvs) @ rest) = Some (PDict kvs, rest)"
    unfolding enc m'(1)
    by (simp add: scan_once.simps object_start_first dict_of_pairs_distinct [OF assms(3)])
qed

lemma parses_str: "json_safe s \<Longrightarrow> parses (PStr s) l (Suc 0)"
  unfolding parses_def
proof (intro conjI allI impI)
  show "\<exists>c t. iterencode l (PStr s) = c # t \<and> \<not> is_ws c"
    by (simp add: encode_basestring_ascii_def is_ws_def)
next
  fix m :: nat and rest :: pystr
  assume safe: "json_safe s" and "Suc 0 \<le> m"
  then obtain m' where m': "m = Suc m'" by (cases m) auto
  have enc: "iterencode l (PStr s) @ rest = 34 # tl (encode_basestring_ascii s) @ rest"
    by (simp add: encode_basestring_ascii_def)
  show "scan_once m (iterencode l (PStr s) @ rest) = Some (PStr s, rest)"
    unfolding m' enc by (simp add: scan_once.simps parse_string_def scan_encoded [OF safe])
qed

lemma float_repr_50: "float_repr 50 = [53, 48, 46, 48]"
  by (simp add: float_repr_def str_int_def dec.simps py_def)

lemma match_number_50:
  assumes "delim rest"
  shows "match_number (53 # 48 # 46 # 48 # rest) = Some (PFloat 50, rest)"
proof -
  have d: "takeWhile is_digit rest = []" and e: "take 1 rest \<noteq> [101]" "take 1 rest \<noteq> [69]"
    using assms by (cases rest; auto simp: delim_def is_digit_def)+
  have i: "match_integer (53 # 48 # 46 # 48 # rest) = 2"
    by (simp add: match_integer_def is_digit_def)
  have f: "match_frac (46 # 48 # rest) = 2"
    by (simp add: match_frac_def is_digit_def d)
  have x: "match_exp rest = 0"
    using e by (simp add: match_exp_def)
  have v: "float_of_str [53, 48] [46, 48] [] = 50"
    by (simp add: float_of_str_def int_of_str_def undec_def scale10_def)
  show ?thesis
    by (simp add: match_number_def i f x v)
qed

lemma parses_fare: "parses (PFloat 50) l (Suc 0)"
  unfolding parses_def
proof (intro conjI allI impI)
  show "\<exists>c t. iterencode l (PFloat 50) = c # t \<and> \<not> is_ws c"
    by (simp add: float_repr_50 is_ws_def)
next
  fix m :: nat and rest :: pystr
  assume "Suc 0 \<le> m" and d: "delim rest"
  then obtain m' where m': "m = Suc m'" by (cases m) auto
  show "scan_once m (iterencode l (PFloat 50) @ rest) = Some (PFloat 50, rest)"
    unfolding m'
    by (simp add: float_repr_50 scan_once.simps scan_constant_def py_def match_number_50 [OF d])
qed

lemma booking_keys_safe:
  "json_safe (py ''booking_id'')" "json_safe (py ''pickup_location'')"
  "json_safe (py ''dropoff_location'')" "json_safe (py ''pickup_datetime'')"
  "json_safe (py ''cab_type'')" "json_safe (py ''status'')" "json_safe (py ''fare'')"
  by (simp_all add: py_def)

lemma booking_keys_distinct:
  "distinct [py ''booking_id'', py ''pickup_location'', py ''dropoff_location'',
             py ''pickup_datetime'', py ''cab_type'', py ''status'', py ''fare'']"
  by (simp add: py_def)

lemma parses_booking:
  assumes "\<forall>x \<in> set (booking_strings b). json_safe x" and "fare b = 50"
  shows "parses (booking_value b) l 9"
proof -
  let ?kvs = "[(py ''booking_id'', PStr (booking_id b)),
            (py ''pickup_location'', PStr (pickup_location b)),
            (py ''dropoff_location'', PStr (dropoff_location b)),
            (py ''pickup_datetime'', PStr (pickup_datetime b)),
            (py ''cab_type'', PStr (cab_type b)),
            (py ''status'', PStr (status b)),
            (py ''fare'', PFloat (fare b))]"
  have ne: "?kvs \<noteq> []" by simp
  have members: "\<forall>kv \<in> set ?kvs. json_safe (fst kv) \<and> parses (snd kv) (Suc l) (Suc 0)"
    using assms by (simp add: booking_strings_def booking_keys_safe parses_str parses_fare)
  have dist: "distinct (map fst ?kvs)"
    using booking_keys_distinct by simp
  have "Suc (Suc 0 + length ?kvs) = 9" by simp
  with parses_dict [OF ne members dist] show ?thesis
    by (simp only: booking_value_def)
qed

lemma parses_db:
  assumes "d \<noteq> []"
    and "\<forall>kb \<in> set d. json_safe (fst kb) \<and> (\<forall>x \<in> set (booking_strings (snd kb)). json_safe x) \<and>
           fare (snd kb) = 50"
    and "distinct (map fst d)"
  shows "parses (db_value d) 0 (Suc (9 + length d))"
proof -
  let ?kvs = "map (\<lambda>kb. (fst kb, booking_value (snd kb))) d"
  have ne: "?kvs \<noteq> []" using assms(1) by simp
  have members: "\<forall>kv \<in> set ?kvs. json_safe (fst kv) \<and> parses (snd kv) (Suc 0) 9"
    using assms(2) by (auto simp: parses_booking)
  have dist: "distinct (map fst ?kvs)"
    using assms(3) by (simp add: comp_def)
  from parses_dict [OF ne members dist] show ?thesis
    by (simp add: db_value_def)
qed

lemma length_join:
  "(\<And>x. x \<in> set xs \<Longrightarrow> c \<le> length x) \<Longrightarrow> c * length xs \<le> length (join sep xs)"
proof (induction sep xs rule: join.induct)
  case (1 sep)
  show ?case by simp
next
  case (2 sep x)
  then show ?case by simp
next
  case (3 sep x y xs)
  have "c \<le> length x" using 3(2) by simp
  moreover have "c * length (y # xs) \<le> length (join sep (y # xs))"
    using 3(2) by (intro 3(1)) simp
  ultimately show ?case by simp
qed

lemma length_dumps_db:
  assumes "d \<noteq> []"
  shows "9 + length d \<le> length (json_dumps (db_value d))"
proof -
  let ?f = "\<lambda>kv. encode_basestring_ascii (fst kv) @ py '': '' @ iterencode (Suc 0) (snd kv)"
  let ?kvs = "map (\<lambda>kb. (fst kb, booking_value (snd kb))) d"
  have "\<And>x. x \<in> set (map ?f ?kvs) \<Longrightarrow> 6 \<le> length x"
    by (auto simp: encode_basestring_ascii_def py_def booking_value_def)
  then have "6 * length (map ?f ?kvs) \<le> length (join (py '','' @ newline_indent (Suc 0)) (map ?f ?kvs))"
    by (rule length_join)
  then have "6 * length d \<le> length (join (py '','' @ newline_indent (Suc 0)) (map ?f ?kvs))"
    by simp
  moreover have "length (json_dumps (db_value d)) =
      6 + length (join (py '','' @ newline_indent (Suc 0)) (map ?f ?kvs))"
    using assms by (simp add: json_dumps_def db_value_def py_def newline_indent_def nl_def spaces_def)
  moreover have "1 \<le> length d" using assms by (cases d) simp_all
  ultimately show ?thesis by linarith
qed

lemma loads_dumps_db:
  assumes "\<forall>kb \<in> set d. json_safe (fst kb) \<and> (\<forall>x \<in> set (booking_strings (snd kb)). json_safe x) \<and>
           fare (snd kb) = 50"
    and "distinct (map fst d)"
  shows "json_loads (json_dumps (db_value d)) = Some (db_value d)"
proof (cases "d = []")
  case True
  then show ?thesis
    by (simp add: json_loads_def json_dumps_def db_value_def py_def skip_ws_def is_ws_def
        scan_once.simps object_start_def eval_nat_numeral)
next
  case False
  from parses_db [OF False assms] have p: "parses (db_value d) 0 (Suc (9 + length d))" .
  then obtain c t where ct: "json_dumps (db_value d) = c # t" "\<not> is_ws c"
    by (auto simp: parses_def json_dumps_def)
  have fuel: "Suc (9 + length d) \<le> 2 * length (json_dumps (db_value d)) + 1"
    using length_dumps_db [OF False] by simp
  from p have all: "\<And>m rest. Suc (9 + length d) \<le> m \<Longrightarrow> delim rest \<Longrightarrow>
      scan_once m (iterencode 0 (db_value d) @ rest) = Some (db_value d, rest)"
    by (simp add: parses_def)
  have "delim []" by (simp add: delim_def)
  from all [OF fuel this]
  have "scan_once (2 * length (json_dumps (db_value d)) + 1) (json_dumps (db_value d)) =
      Some (db_value d, [])"
    by (simp add: json_dumps_def)
  moreover have "skip_ws (json_dumps (db_value d)) = json_dumps (db_value d)"
    using ct by (simp add: skip_ws_nonws)
  ultimately show ?thesis
    by (simp add: json_loads_def skip_ws_def)
qed

lemma json_safe_below_surrogates: "(\<And>c. c \<in> set s \<Longrightarrow> c < 55296) \<Longrightarrow> json_safe s"
proof (induction s rule: json_safe.induct)
  case 1
  show ?case by simp
next
  case (2 c)
  from 2 [of c] show ?case by simp
next
  case (3 c c' s)
  from 3(2) [of c] have "c < 55296" by simp
  moreover have "json_safe (c' # s)" using 3(2) by (intro 3(1)) simp
  ultimately show ?case by simp
qed

lemma json_safe_mk_id: "json_safe (mk_id n)"
proof (rule json_safe_below_surrogates)
  fix c assume "c \<in> set (mk_id n)"
  then consider "c \<in> set (py ''CAB'')" | "c = 45" | "c \<in> set (dec (nat (- n)))"
    | "c \<in> set (dec (nat n))"
    by (auto simp: mk_id_def str_int_def split: if_splits)
  then show "c < 55296"
  proof cases
    case 1
    then show ?thesis by (auto simp: py_def)
  next
    case 2
    then show ?thesis by simp
  next
    case 3
    with dec_digits show ?thesis by fastforce
  next
    case 4
    with dec_digits show ?thesis by fastforce
  qed
qed

lemma loads_dumps_state:
  assumes "store_inv s"
    and "\<forall>kb \<in> set (bookings_db s). \<forall>x \<in> set (supplied_strings (snd kb)). json_safe x"
  shows "json_loads (json_dumps (db_value (bookings_db s))) = Some (db_value (bookings_db s))"
proof (rule loads_dumps_db)
  show "\<forall>kb \<in> set (bookings_db s).
      json_safe (fst kb) \<and> (\<forall>x \<in> set (booking_strings (snd kb)). json_safe x) \<and> fare (snd kb) = 50"
  proof
    fix kb assume kb: "kb \<in> set (bookings_db s)"
    with assms(1) have fields: "booking_id (snd kb) = fst kb" "status (snd kb) = py ''confirmed''"
      "fare (snd kb) = 50"
      by (auto simp: store_inv_def)
    from kb have "fst kb \<in> set (dict_keys (bookings_db s))" by (simp add: dict_keys_def)
    with assms(1) obtain i where "fst kb = mk_id i" by (auto simp: store_inv_def)
    then have key: "json_safe (fst kb)" by (simp add: json_safe_mk_id)
    have confirmed: "json_safe (py ''confirmed'')" by (simp add: py_def)
    from kb assms(2) have "\<forall>x \<in> set (supplied_strings (snd kb)). json_safe x" by blast
    with key fields confirmed have "\<forall>x \<in> set (booking_strings (snd kb)). json_safe x"
      by (simp add: booking_strings_def supplied_strings_def)
    with key fields show "json_safe (fst kb) \<and> (\<forall>x \<in> set (booking_strings (snd kb)). json_safe x) \<and>
      fare (snd kb) = 50" by simp
  qed
  show "distinct (map fst (bookings_db s))"
    using assms(1) distinct_map_mk_id [of 1000 "booking_counter s - 1"]
    by (simp add: store_inv_def dict_keys_def)
qed

lemma surrogate_args_keys:
  "surrogate_args (py ''pickup_location'') = Some [55296, 56320]"
  "surrogate_args (py ''dropoff_location'') = Some (py ''Downtown'')"
  "surrogate_args (py ''pickup_datetime'') = Some (py ''2024-01-01T10:00:00'')"
  "surrogate_args (py ''cab_type'') = Some (py ''Premium'')"
  by (simp_all add: surrogate_args_def py_def)

lemma astral_args_keys:
  "astral_args (py ''pickup_location'') = Some [65536]"
  "astral_args (py ''dropoff_location'') = Some (py ''Downtown'')"
  "astral_args (py ''pickup_datetime'') = Some (py ''2024-01-01T10:00:00'')"
  "astral_args (py ''cab_type'') = Some (py ''Premium'')"
  by (simp_all add: astral_args_def py_def)

lemma run_first_booking:
  assumes "a (py ''pickup_location'') = Some p" and "a (py ''dropoff_location'') = Some d"
    and "a (py ''pickup_datetime'') = Some t" and "a (py ''cab_type'') = Some c"
  shows "bookings_db (run [(py ''book_cab'', a)] init_state) =
     [(py ''CAB1000'',
       \<lparr>booking_id = py ''CAB1000'', pickup_location = p, dropoff_location = d,
        pickup_datetime = t, cab_type = c, status = py ''confirmed'', fare = 50\<rparr>)]"
proof -
  have "has_keys a BookCabInput_required"
    using assms by (simp add: has_keys_def BookCabInput_required_def)
  from book_cab_ok [OF this, of init_state] assms show ?thesis
    by (simp add: call_tool_def init_state_def new_booking_def mk_id_1000)
qed

lemma surrogates_encode_as_astral:
  "encode_basestring_ascii [55296, 56320] = encode_basestring_ascii [65536]"
  by (simp add: encode_basestring_ascii_def escape_char_def hex4_def hexdigit_def Let_def)

lemma example_strings_safe:
  "json_safe (py ''Airport'')" "json_safe (py ''Downtown'')"
  "json_safe (py ''2024-01-01T10:00:00'')" "json_safe (py ''Premium'')" "json_safe [65536]"
  by (simp_all add: py_def)

text \<open>
  C7, as the code has it. In every state that a run reaches and in which no stored
  pickup location, drop-off location, pickup time or cab type has a high surrogate
  directly followed by a low surrogate, the resource \<open>booking://all\<close> is the JSON text
  of the store, and \<open>json.loads\<close> of this text is the dictionary from each id to the
  fields stored under it.
\<close>

theorem resource_round_trip:
  assumes "\<forall>kb \<in> set (bookings_db (run cs init_state)).
             \<forall>x \<in> set (supplied_strings (snd kb)). json_safe x"
  shows "read_resource (py ''booking://all'') (run cs init_state) =
           Inr (json_dumps (db_value (bookings_db (run cs init_state)))) \<and>
         json_loads (json_dumps (db_value (bookings_db (run cs init_state)))) =
           Some (db_value (bookings_db (run cs init_state)))"
proof -
  have "store_inv (run cs init_state)"
    by (rule store_inv_run [OF store_inv_init])
  from loads_dumps_state [OF this assms] show ?thesis
    by (simp add: read_resource_def)
qed

theorem resource_round_trip_witness:
  "json_safe (py ''Airport'') \<and> json_safe (py ''Downtown'') \<and>
   json_safe (py ''2024-01-01T10:00:00'') \<and> json_safe (py ''Premium'') \<and>
   read_resource (py ''booking://all'') (run [(py ''book_cab'', airport_args)] init_state) =
     Inr (json_dumps (db_value (bookings_db (run [(py ''book_cab'', airport_args)] init_state)))) \<and>
   json_loads (json_dumps (db_value (bookings_db (run [(py ''book_cab'', airport_args)] init_state)))) =
     Some (db_value (bookings_db (run [(py ''book_cab'', airport_args)] init_state)))"
proof -
  have h: "\<forall>kb \<in> set (bookings_db (run [(py ''book_cab'', airport_args)] init_state)).
      \<forall>x \<in> set (supplied_strings (snd kb)). json_safe x"
    unfolding run_first_booking [OF airport_args_keys]
    by (simp add: supplied_strings_def example_strings_safe)
  from resource_round_trip [OF h] example_strings_safe show ?thesis by blast
qed

text \<open>
  A pickup location of a high and a low surrogate is written as two escapes, which the
  decoder joins: the text of the resource is decoded to the store with the pickup
  location \<open>U+10000\<close>, which is not the store that was written.
\<close>

theorem surrogate_pair_counterexample:
  "read_resource (py ''booking://all'') (run [(py ''book_cab'', surrogate_args)] init_state) =
     Inr (json_dumps (db_value (bookings_db (run [(py ''book_cab'', surrogate_args)] init_state)))) \<and>
   json_loads (json_dumps (db_value (bookings_db (run [(py ''book_cab'', surrogate_args)] init_state)))) =
     Some (db_value (bookings_db (run [(py ''book_cab'', astral_args)] init_state))) \<and>
   Some (db_value (bookings_db (run [(py ''book_cab'', astral_args)] init_state))) \<noteq>
     Some (db_value (bookings_db (run [(py ''book_cab'', surrogate_args)] init_state)))"
proof -
  let ?sur = "run [(py ''book_cab'', surrogate_args)] init_state"
  let ?ast = "run [(py ''book_cab'', astral_args)] init_state"
  have same: "json_dumps (db_value (bookings_db ?sur)) = json_dumps (db_value (bookings_db ?ast))"
    unfolding run_first_booking [OF surrogate_args_keys] run_first_booking [OF astral_args_keys]
    by (simp add: json_dumps_def db_value_def booking_value_def surrogates_encode_as_astral)
  have inv: "store_inv ?ast" by (rule store_inv_run [OF store_inv_init])
  have safe: "\<forall>kb \<in> set (bookings_db ?ast). \<forall>x \<in> set (supplied_strings (snd kb)). json_safe x"
    unfolding run_first_booking [OF astral_args_keys]
    by (simp add: supplied_strings_def example_strings_safe)
  have loads: "json_loads (json_dumps (db_value (bookings_db ?sur))) = Some (db_value (bookings_db ?ast))"
    unfolding same by (rule loads_dumps_state [OF inv safe])
  have differ: "Some (db_value (bookings_db ?ast)) \<noteq> Some (db_value (bookings_db ?sur))"
    unfolding run_first_booking [OF surrogate_args_keys] run_first_booking [OF astral_args_keys]
    by (simp add: db_value_def booking_value_def)
  have res: "read_resource (py ''booking://all'') ?sur = Inr (json_dumps (db_value (bookings_db ?sur)))"
    by (simp add: read_resource_def)
  from res loads differ show ?thesis by blast
qed

end
